theory Spec2Isabelle
  imports Main "HOL-Library.Word" "HOL-Library.Monad_Syntax" "HOL-Library.Multiset"
begin

unbundle bit_operations_syntax

section \<open>Basic types\<close>

text \<open>
  Go's \<^verbatim>\<open>[]byte\<close> is a list of bytes. A Go \<^verbatim>\<open>string\<close> obtained by \<^verbatim>\<open>string(key)\<close> is the same
  byte sequence, so map keys of type \<^verbatim>\<open>string\<close> are byte lists as well. A \<^verbatim>\<open>time.Time\<close> is an
  instant, counted in nanoseconds; \<^verbatim>\<open>a.After(b)\<close> is \<open>b < a\<close> and \<^verbatim>\<open>a.Add(d)\<close> is \<open>a + d\<close>.
\<close>

type_synonym byte = "8 word"
type_synonym bytes = "byte list"
type_synonym time = int

definition second :: int where
  "second = 1000000000"

definition hour :: int where
  "hour = 3600 * second"

text \<open>The zero value of \<^verbatim>\<open>time.Time\<close> (January 1 of year 1), read from a map at a missing key.\<close>

definition zeroTime :: time where
  "zeroTime = - 62135596800 * second"

section \<open>The in-memory store\<close>

text \<open>
  \<^verbatim>\<open>MemoryStore\<close>: three Go maps keyed by \<^verbatim>\<open>string(key)\<close>. The mutex serialises the
  operations; each operation below is one critical section. \<^verbatim>\<open>time.Now()\<close> is read inside the
  critical section (by the two loops once for each key they visit); the readings of one call
  are one instant here, \<open>now\<close>.
\<close>

record MemoryStore =
  data :: "bytes \<rightharpoonup> bytes"
  refreshMap :: "bytes \<rightharpoonup> time"
  expireMap :: "bytes \<rightharpoonup> time"

definition MemoryStore_Init :: MemoryStore where
  "MemoryStore_Init = \<lparr>data = Map.empty, refreshMap = Map.empty, expireMap = Map.empty\<rparr>"

text \<open>
  \<^verbatim>\<open>Store(key, data, expiration, publisher)\<close>: always returns the nil error, so the model
  returns the new store only. The three assignments are in the order of the source.
\<close>

definition MemoryStore_Store ::
  "time \<Rightarrow> MemoryStore \<Rightarrow> bytes \<Rightarrow> bytes \<Rightarrow> time \<Rightarrow> bool \<Rightarrow> MemoryStore" where
  "MemoryStore_Store now ms key dat expiration publisher =
     (let ms1 = ms\<lparr>refreshMap := (refreshMap ms)(key \<mapsto> now + hour)\<rparr>;
          ms2 = ms1\<lparr>expireMap := (expireMap ms1)(key \<mapsto> expiration)\<rparr>
      in ms2\<lparr>data := (data ms2)(key \<mapsto> dat)\<rparr>)"

text \<open>\<^verbatim>\<open>Retrieve(key)\<close> returns the pair \<^verbatim>\<open>(data, exists)\<close>: here \<open>None\<close> is \<^verbatim>\<open>(nil, false)\<close>.\<close>

definition MemoryStore_Retrieve :: "MemoryStore \<Rightarrow> bytes \<Rightarrow> bytes option" where
  "MemoryStore_Retrieve ms key = data ms key"

definition MemoryStore_Delete :: "MemoryStore \<Rightarrow> bytes \<Rightarrow> MemoryStore" where
  "MemoryStore_Delete ms key = ms\<lparr>data := (data ms)(key := None)\<rparr>"

text \<open>
  \<^verbatim>\<open>GetAllKeysForRefresh\<close> ranges over \<^verbatim>\<open>ms.data\<close>. Go fixes no iteration order for a map:
  the order \<open>ks\<close> in which the keys come is a parameter. A key that \<^verbatim>\<open>refreshMap\<close> lacks reads
  the zero time.
\<close>

fun GetAllKeysForRefresh :: "time \<Rightarrow> bytes list \<Rightarrow> MemoryStore \<Rightarrow> bytes list" where
  "GetAllKeysForRefresh now [] ms = []"
| "GetAllKeysForRefresh now (kk # ks) ms =
     (case data ms kk of
        None \<Rightarrow> GetAllKeysForRefresh now ks ms
      | Some _ \<Rightarrow>
          (if (case refreshMap ms kk of None \<Rightarrow> zeroTime | Some r \<Rightarrow> r) < now
           then kk # GetAllKeysForRefresh now ks ms
           else GetAllKeysForRefresh now ks ms))"

text \<open>
  \<^verbatim>\<open>ExpireKeys\<close> ranges over \<^verbatim>\<open>ms.expireMap\<close>, in the order \<open>ks\<close>. The body deletes the visited
  key from all three maps when \<^verbatim>\<open>time.Now().After(v)\<close>. A key deleted before the loop reaches
  it is not produced by \<^verbatim>\<open>range\<close>.
\<close>

fun ExpireKeys :: "time \<Rightarrow> bytes list \<Rightarrow> MemoryStore \<Rightarrow> MemoryStore" where
  "ExpireKeys now [] ms = ms"
| "ExpireKeys now (kk # ks) ms =
     (case expireMap ms kk of
        None \<Rightarrow> ExpireKeys now ks ms
      | Some v \<Rightarrow>
          (if v < now
           then ExpireKeys now ks
                  (ms\<lparr>refreshMap := (refreshMap ms)(kk := None),
                      expireMap := (expireMap ms)(kk := None),
                      data := (data ms)(kk := None)\<rparr>)
           else ExpireKeys now ks ms))"

section \<open>Properties of the store\<close>

lemma ExpireKeys_unvisited:
  "key \<notin> set ks \<Longrightarrow>
     data (ExpireKeys now ks ms) key = data ms key \<and>
     refreshMap (ExpireKeys now ks ms) key = refreshMap ms key \<and>
     expireMap (ExpireKeys now ks ms) key = expireMap ms key"
  by (induction ks arbitrary: ms) (auto split: option.splits)

lemma ExpireKeys_kept:
  "expireMap ms key = Some v \<Longrightarrow> \<not> v < now \<Longrightarrow>
     data (ExpireKeys now ks ms) key = data ms key \<and>
     refreshMap (ExpireKeys now ks ms) key = refreshMap ms key \<and>
     expireMap (ExpireKeys now ks ms) key = Some v"
proof (induction ks arbitrary: ms)
  case Nil
  then show ?case by simp
next
  case (Cons kk ks)
  show ?case
  proof (cases "expireMap ms kk")
    case None
    with Cons.IH [OF Cons.prems] show ?thesis by simp
  next
    case (Some w)
    show ?thesis
    proof (cases "w < now")
      case False
      with Some Cons.IH [OF Cons.prems] show ?thesis by simp
    next
      case True
      let ?ms' = "ms\<lparr>refreshMap := (refreshMap ms)(kk := None),
                      expireMap := (expireMap ms)(kk := None),
                      data := (data ms)(kk := None)\<rparr>"
      from True Some Cons.prems have ne: "kk \<noteq> key" by auto
      then have e: "expireMap ?ms' key = Some v" using Cons.prems(1) by simp
      from Cons.IH [OF e Cons.prems(2)] Some True ne show ?thesis by simp
    qed
  qed
qed

lemma ExpireKeys_absent:
  "expireMap ms key = None \<Longrightarrow>
     data (ExpireKeys now ks ms) key = data ms key \<and>
     refreshMap (ExpireKeys now ks ms) key = refreshMap ms key \<and>
     expireMap (ExpireKeys now ks ms) key = None"
  by (induction ks arbitrary: ms) (auto split: option.splits)

lemma ExpireKeys_removed:
  "expireMap ms key = Some v \<Longrightarrow> v < now \<Longrightarrow> key \<in> set ks \<Longrightarrow>
     data (ExpireKeys now ks ms) key = None \<and>
     refreshMap (ExpireKeys now ks ms) key = None \<and>
     expireMap (ExpireKeys now ks ms) key = None"
proof (induction ks arbitrary: ms)
  case Nil
  then show ?case by simp
next
  case (Cons kk ks)
  show ?case
  proof (cases "kk = key")
    case True
    let ?ms' = "ms\<lparr>refreshMap := (refreshMap ms)(key := None),
                    expireMap := (expireMap ms)(key := None),
                    data := (data ms)(key := None)\<rparr>"
    have "expireMap ?ms' key = None" by simp
    from ExpireKeys_absent [OF this, of now ks] Cons.prems True
    show ?thesis by simp
  next
    case False
    with Cons.prems have mem: "key \<in> set ks" by simp
    show ?thesis
    proof (cases "expireMap ms kk")
      case None
      with Cons.IH [OF Cons.prems(1) Cons.prems(2) mem] show ?thesis by simp
    next
      case (Some w)
      let ?ms' = "ms\<lparr>refreshMap := (refreshMap ms)(kk := None),
                      expireMap := (expireMap ms)(kk := None),
                      data := (data ms)(kk := None)\<rparr>"
      have e: "expireMap ?ms' key = Some v" using False Cons.prems(1) by simp
      show ?thesis
        using Some Cons.IH [OF Cons.prems(1) Cons.prems(2) mem]
              Cons.IH [OF e Cons.prems(2) mem]
        by simp
    qed
  qed
qed

subsection \<open>A small store used to run the operations\<close>

definition demoStore :: MemoryStore where
  "demoStore =
     \<lparr>data = [[1] \<mapsto> [10, 11], [2] \<mapsto> [20]],
      refreshMap = [[1] \<mapsto> 40, [2] \<mapsto> 60],
      expireMap = [[1] \<mapsto> 50, [2] \<mapsto> 100]\<rparr>"

lemma demoStore_dom: "set [[1], [2]] = dom (expireMap demoStore)"
  by (auto simp: demoStore_def)

text \<open>
  C7, as the claim states it, fails at the boundary: an entry whose expire-at instant equals the
  current time is kept, because \<^verbatim>\<open>time.Now().After(v)\<close> is strict. In \<open>demoStore\<close> the key
  \<open>[2]\<close> expires at 100; a sweep at 100 leaves it in all three maps.
\<close>

theorem ExpireKeys_keeps_entry_expiring_now:
  "expireMap demoStore [2] = Some 100 \<and> (100::time) \<le> 100 \<and>
   data (ExpireKeys 100 [[1], [2]] demoStore) [2] = Some [20] \<and>
   refreshMap (ExpireKeys 100 [[1], [2]] demoStore) [2] = Some 60 \<and>
   expireMap (ExpireKeys 100 [[1], [2]] demoStore) [2] = Some 100"
  by (simp add: demoStore_def)

text \<open>
  C7, amended: \<^verbatim>\<open>ExpireKeys\<close> removes exactly the entries whose expire-at instant is strictly
  before the current time. Whatever the order in which the map is ranged over, an entry with
  expire-at \<open>< now\<close> is gone from the data, refresh and expire maps, and an entry with expire-at
  \<open>\<ge> now\<close> (in particular \<open>= now\<close>) keeps its value, its refresh-at and its expire-at.
\<close>

theorem ExpireKeys_removes_strictly_expired:
  assumes "set ks = dom (expireMap ms)"
  shows "(\<forall>v. expireMap ms key = Some v \<and> v < now \<longrightarrow>
            data (ExpireKeys now ks ms) key = None \<and>
            refreshMap (ExpireKeys now ks ms) key = None \<and>
            expireMap (ExpireKeys now ks ms) key = None) \<and>
         (\<forall>v. expireMap ms key = Some v \<and> now \<le> v \<longrightarrow>
            data (ExpireKeys now ks ms) key = data ms key \<and>
            refreshMap (ExpireKeys now ks ms) key = refreshMap ms key \<and>
            expireMap (ExpireKeys now ks ms) key = Some v)"
proof (intro conjI allI impI)
  fix v
  assume a: "expireMap ms key = Some v \<and> v < now"
  then have "key \<in> set ks" using assms by auto
  with a ExpireKeys_removed [of ms key v now ks]
  show "data (ExpireKeys now ks ms) key = None"
    and "refreshMap (ExpireKeys now ks ms) key = None"
    and "expireMap (ExpireKeys now ks ms) key = None"
    by simp_all
next
  fix v
  assume a: "expireMap ms key = Some v \<and> now \<le> v"
  then have "\<not> v < now" by simp
  with a ExpireKeys_kept [of ms key v now ks]
  show "data (ExpireKeys now ks ms) key = data ms key"
    and "refreshMap (ExpireKeys now ks ms) key = refreshMap ms key"
    and "expireMap (ExpireKeys now ks ms) key = Some v"
    by simp_all
qed

theorem ExpireKeys_removes_strictly_expired_witness:
  "set [[1], [2]] = dom (expireMap demoStore) \<and>
   expireMap demoStore [1] = Some 50 \<and> (50::time) < 100 \<and>
   data (ExpireKeys 100 [[1], [2]] demoStore) [1] = None \<and>
   refreshMap (ExpireKeys 100 [[1], [2]] demoStore) [1] = None \<and>
   expireMap (ExpireKeys 100 [[1], [2]] demoStore) [1] = None \<and>
   expireMap demoStore [2] = Some 100 \<and>
   data (ExpireKeys 100 [[1], [2]] demoStore) [2] = data demoStore [2]"
proof -
  have e1: "expireMap demoStore [1] = Some 50" and e2: "expireMap demoStore [2] = Some 100"
    by (simp_all add: demoStore_def)
  from ExpireKeys_removes_strictly_expired [OF demoStore_dom, of "[1]" 100] e1
  have r1: "data (ExpireKeys 100 [[1], [2]] demoStore) [1] = None \<and>
            refreshMap (ExpireKeys 100 [[1], [2]] demoStore) [1] = None \<and>
            expireMap (ExpireKeys 100 [[1], [2]] demoStore) [1] = None"
    by simp
  from ExpireKeys_removes_strictly_expired [OF demoStore_dom, of "[2]" 100] e2
  have r2: "data (ExpireKeys 100 [[1], [2]] demoStore) [2] = data demoStore [2]"
    by simp
  from demoStore_dom e1 e2 r1 r2 show ?thesis by simp
qed

text \<open>
  C10: the \<open>publisher\<close> argument of \<^verbatim>\<open>MemoryStore.Store\<close> is never read. Storing with
  \<open>publisher = True\<close> and with \<open>publisher = False\<close> gives the same store (the same data, refresh
  and expire maps), hence the same answers from \<^verbatim>\<open>Retrieve\<close>, \<^verbatim>\<open>GetAllKeysForRefresh\<close> and
  \<^verbatim>\<open>ExpireKeys\<close> at any later time and in any iteration order.
\<close>

theorem MemoryStore_Store_publisher_unobservable:
  "MemoryStore_Store now ms key dat expiration True =
     MemoryStore_Store now ms key dat expiration False \<and>
   MemoryStore_Retrieve (MemoryStore_Store now ms key dat expiration True) key' =
     MemoryStore_Retrieve (MemoryStore_Store now ms key dat expiration False) key' \<and>
   GetAllKeysForRefresh later ks (MemoryStore_Store now ms key dat expiration True) =
     GetAllKeysForRefresh later ks (MemoryStore_Store now ms key dat expiration False) \<and>
   ExpireKeys later ks (MemoryStore_Store now ms key dat expiration True) =
     ExpireKeys later ks (MemoryStore_Store now ms key dat expiration False)"
  unfolding MemoryStore_Store_def by simp

theorem MemoryStore_Store_publisher_unobservable_witness:
  "MemoryStore_Store 0 demoStore [3] [30] 7 True = MemoryStore_Store 0 demoStore [3] [30] 7 False \<and>
   MemoryStore_Retrieve (MemoryStore_Store 0 demoStore [3] [30] 7 True) [3] = Some [30] \<and>
   MemoryStore_Retrieve (MemoryStore_Store 0 demoStore [3] [30] 7 False) [3] = Some [30]"
  using MemoryStore_Store_publisher_unobservable [of 0 demoStore "[3]" "[30]" 7 "[3]" 0 "[]"]
  by (simp add: MemoryStore_Retrieve_def MemoryStore_Store_def)

section \<open>Nodes, messages and the network\<close>

text \<open>
  \<^verbatim>\<open>NetworkNode\<close>: the id, the address and the port of a peer. The \<^verbatim>\<open>node\<close> of a bucket wraps
  a \<^verbatim>\<open>*NetworkNode\<close>; the code here reads nothing else of it, so a \<open>node\<close> is its
  \<open>NetworkNode\<close> and \<open>newNode\<close> is the wrapping.
\<close>

record NetworkNode =
  ID :: bytes
  IP :: bytes
  Port :: int

type_synonym node = NetworkNode

definition newNode :: "NetworkNode \<Rightarrow> node" where
  "newNode n = n"

datatype messageType =
    messageTypeQueryPing
  | messageTypeResponsePing
  | messageTypeQueryStore
  | messageTypeQueryFindNode
  | messageTypeResponseFindNode
  | messageTypeQueryFindValue
  | messageTypeResponseFindValue

text \<open>
  The \<^verbatim>\<open>Data\<close> field of a message is an \<^verbatim>\<open>interface{}\<close> that the code downcasts; \<open>noData\<close>
  is the nil interface. \<open>queryDataStore\<close> carries \<^verbatim>\<open>Key\<close> and \<^verbatim>\<open>Data\<close>;
  \<open>responseDataFindValue\<close> carries \<^verbatim>\<open>Closest\<close> and the nullable \<^verbatim>\<open>Value\<close>.
\<close>

datatype payload =
    noData
  | queryDataFindNode bytes
  | queryDataFindValue bytes
  | queryDataStore bytes bytes
  | responseDataFindNode "NetworkNode list"
  | responseDataFindValue "NetworkNode list" "bytes option"

record message =
  ID :: "64 word"
  Sender :: "NetworkNode option"
  Receiver :: "NetworkNode option"
  IsResponse :: bool
  Type :: messageType
  Error :: "string option"
  Data :: payload

text \<open>
  \<^verbatim>\<open>sendMessage(msg, id, expectResponse)\<close> returns a channel and an error. With
  \<^verbatim>\<open>expectResponse\<close> the caller sees one of three things: the error is not nil; the channel
  delivers a message; the channel never delivers (within the time the caller waits, if it
  waits with a timeout).
\<close>

datatype sendOutcome = SendError string | Reply message | NoReply

record hashTable =
  Self :: NetworkNode
  RoutingTable :: "node list list"

text \<open>
  The bodies of \<^verbatim>\<open>getBucketIndexFromDifferingBit\<close>, \<^verbatim>\<open>getClosestContacts\<close> and \<^verbatim>\<open>removeNode\<close>
  of the hash table are not part of the sources, and \<^verbatim>\<open>networking\<close>, the SHA-1 digest and the
  base58 codec are collaborators behind interfaces. They are parameters of the model: every
  theorem below holds whatever they compute, under the hypotheses it states.
  \<open>sendMessage e q i\<close> is what a caller that expects a response sees for query \<open>q\<close> sent under
  message id \<open>i\<close>. \<open>storeArguments\<close> belongs to the store that \<^verbatim>\<open>NewDHT\<close> is given; it is
  explained with \<open>storeKeyData\<close> below.
\<close>

record env =
  getBucketIndexFromDifferingBit :: "bytes \<Rightarrow> bytes \<Rightarrow> int"
  getClosestContacts :: "hashTable \<Rightarrow> nat \<Rightarrow> bytes \<Rightarrow> NetworkNode list \<Rightarrow> NetworkNode list"
  removeNode :: "hashTable \<Rightarrow> bytes \<Rightarrow> hashTable"
  sendMessage :: "message \<Rightarrow> 64 word \<Rightarrow> sendOutcome"
  storeArguments :: "time \<Rightarrow> bytes \<Rightarrow> bytes \<Rightarrow> time \<times> bool"
  sha1 :: "bytes \<Rightarrow> bytes"
  b58Encode :: "bytes \<Rightarrow> string"
  b58Decode :: "string \<Rightarrow> bytes"

text \<open>
  The state of a \<^verbatim>\<open>DHT\<close>. The field \<open>networking\<close> is what the networking object has been
  handed so far: every call of \<^verbatim>\<open>sendMessage\<close>, in order, with its message, its id and its
  \<^verbatim>\<open>expectResponse\<close> flag. \<^verbatim>\<open>msgCounter\<close> is an \<^verbatim>\<open>int64\<close> and wraps.
\<close>

record DHT =
  ht :: hashTable
  store :: MemoryStore
  msgCounter :: "64 word"
  networking :: "(message \<times> 64 word \<times> bool) list"

datatype panic = IndexOutOfRange | NilDereference | TypeAssertion

text \<open>Modelled from the spec: the constants \<open>alpha\<close> and \<open>k\<close>, which the sources use but do not
  declare (\<open>\<alpha> = 3\<close>, \<open>k = 20\<close>).\<close>

definition alpha :: nat where
  "alpha = 3"

definition k :: nat where
  "k = 20"

text \<open>The constants \<^verbatim>\<open>tExpire\<close> and \<^verbatim>\<open>tPingMax\<close> of the source, in seconds.\<close>

definition tExpire :: int where
  "tExpire = 86410"

definition tPingMax :: int where
  "tPingMax = 1"

text \<open>\<^verbatim>\<open>dht.networking.sendMessage(msg, dht.msgCounter, expectResponse)\<close> followed by
  \<^verbatim>\<open>dht.msgCounter++\<close>, as far as the state goes.\<close>

definition send :: "DHT \<Rightarrow> message \<Rightarrow> bool \<Rightarrow> DHT" where
  "send d msg expectResponse =
     d\<lparr>networking := networking d @ [(msg, msgCounter d, expectResponse)],
       msgCounter := msgCounter d + 1\<rparr>"

section \<open>addNode\<close>

definition setBucket :: "DHT \<Rightarrow> nat \<Rightarrow> node list \<Rightarrow> DHT" where
  "setBucket d index bucket =
     d\<lparr>ht := (ht d)\<lparr>RoutingTable := (RoutingTable (ht d))[index := bucket]\<rparr>\<rparr>"

definition pingQuery :: "NetworkNode \<Rightarrow> NetworkNode \<Rightarrow> message" where
  "pingQuery self n =
     \<lparr>ID = 0, Sender = Some self, Receiver = Some n, IsResponse = False,
      Type = messageTypeQueryPing, Error = None, Data = noData\<rparr>"

text \<open>
  \<^verbatim>\<open>addNode\<close>. Indexing the routing table out of range panics. With a full bucket the head is
  pinged: on a send error, and when no answer comes within \<^verbatim>\<open>tPingMax\<close>, the new node is
  appended and the head dropped; on an answer the function returns with the bucket as it was.
\<close>

definition addNode :: "env \<Rightarrow> DHT \<Rightarrow> node \<Rightarrow> panic + DHT" where
  "addNode e d nd =
     (let index = getBucketIndexFromDifferingBit e (NetworkNode.ID (Self (ht d))) (NetworkNode.ID nd)
      in if index < 0 \<or> int (length (RoutingTable (ht d))) \<le> index then Inl IndexOutOfRange
         else
           (let bucket = RoutingTable (ht d) ! nat index
            in if list_ex (\<lambda>v. NetworkNode.ID v = NetworkNode.ID nd) bucket then Inr d
               else if length bucket = k then
                 (case bucket of
                    [] \<Rightarrow> Inl IndexOutOfRange
                  | n # _ \<Rightarrow>
                      (let query = pingQuery (Self (ht d)) n;
                           d1 = send d query True
                       in case sendMessage e query (msgCounter d) of
                            SendError err \<Rightarrow> Inr (setBucket d1 (nat index) (tl (bucket @ [nd])))
                          | Reply r \<Rightarrow> Inr d1
                          | NoReply \<Rightarrow> Inr (setBucket d1 (nat index) (tl (bucket @ [nd])))))
               else Inr (setBucket d (nat index) (bucket @ [nd]))))"

text \<open>A sequence of \<^verbatim>\<open>addNode\<close> calls, as in \<^verbatim>\<open>for _, n := range ... { dht.addNode(newNode(n)) }\<close>.\<close>

fun addNodes :: "env \<Rightarrow> NetworkNode list \<Rightarrow> DHT \<Rightarrow> panic + DHT" where
  "addNodes e [] d = Inr d"
| "addNodes e (n # ns) d =
     (case addNode e d (newNode n) of
        Inl p \<Rightarrow> Inl p
      | Inr d' \<Rightarrow> addNodes e ns d')"

section \<open>The shortlist\<close>

text \<open>Modelled from the spec: the distance of two ids is their bitwise XOR read as an unsigned
  big-endian integer (the function is not part of the sources).\<close>

definition getDistance :: "bytes \<Rightarrow> bytes \<Rightarrow> nat" where
  "getDistance id1 id2 = foldl (\<lambda>acc b. acc * 256 + unat b) 0 (map2 (XOR) id1 id2)"

text \<open>Modelled from the spec: the shortlist of a lookup is a sequence of addresses with the
  operations \<open>append_unique\<close> (adds the addresses whose id is not yet present), \<open>remove\<close> and
  \<open>sort_by_distance\<close>; the type \<^verbatim>\<open>shortList\<close> and its methods are not part of the sources. Two
  addresses with the same id are the same peer. \<^verbatim>\<open>sort.Sort\<close> is not stable; nodes of equal
  distance to the target keep their order here.\<close>

fun AppendUniqueNetworkNodes :: "NetworkNode list \<Rightarrow> NetworkNode list \<Rightarrow> NetworkNode list" where
  "AppendUniqueNetworkNodes nodes [] = nodes"
| "AppendUniqueNetworkNodes nodes (n # ns) =
     (if list_ex (\<lambda>v. NetworkNode.ID v = NetworkNode.ID n) nodes
      then AppendUniqueNetworkNodes nodes ns
      else AppendUniqueNetworkNodes (nodes @ [n]) ns)"

definition RemoveNode :: "NetworkNode list \<Rightarrow> NetworkNode \<Rightarrow> NetworkNode list" where
  "RemoveNode nodes n = filter (\<lambda>v. NetworkNode.ID v \<noteq> NetworkNode.ID n) nodes"

definition sortShortList :: "bytes \<Rightarrow> NetworkNode list \<Rightarrow> NetworkNode list" where
  "sortShortList target nodes = sort_key (\<lambda>n. getDistance (NetworkNode.ID n) target) nodes"

section \<open>iterate\<close>

datatype iterateType = iterateStore | iterateFindNode | iterateFindValue

text \<open>The query built for one node of the shortlist: \<^verbatim>\<open>iterateStore\<close> asks with a FindNode
  query, as \<^verbatim>\<open>iterateFindNode\<close> does.\<close>

definition mkQuery :: "iterateType \<Rightarrow> NetworkNode \<Rightarrow> NetworkNode \<Rightarrow> bytes \<Rightarrow> message" where
  "mkQuery t self n target =
     (case t of
        iterateFindNode \<Rightarrow>
          \<lparr>ID = 0, Sender = Some self, Receiver = Some n, IsResponse = False,
           Type = messageTypeQueryFindNode, Error = None, Data = queryDataFindNode target\<rparr>
      | iterateFindValue \<Rightarrow>
          \<lparr>ID = 0, Sender = Some self, Receiver = Some n, IsResponse = False,
           Type = messageTypeQueryFindValue, Error = None, Data = queryDataFindValue target\<rparr>
      | iterateStore \<Rightarrow>
          \<lparr>ID = 0, Sender = Some self, Receiver = Some n, IsResponse = False,
           Type = messageTypeQueryFindNode, Error = None, Data = queryDataFindNode target\<rparr>)"

text \<open>
  The first inner loop, over the nodes at the indices below \<open>alpha\<close> (the caller passes
  \<open>take alpha\<close> of the shortlist): a node already contacted is skipped, the others are marked
  and get a query.
\<close>

fun buildQueries ::
  "iterateType \<Rightarrow> NetworkNode \<Rightarrow> bytes \<Rightarrow> NetworkNode list \<Rightarrow> bytes set \<Rightarrow> message list \<times> bytes set" where
  "buildQueries t self target [] contacted = ([], contacted)"
| "buildQueries t self target (n # ns) contacted =
     (if NetworkNode.ID n \<in> contacted then buildQueries t self target ns contacted
      else (case buildQueries t self target ns (insert (NetworkNode.ID n) contacted) of
              (qs, c) \<Rightarrow> (mkQuery t self n target # qs, c)))"

text \<open>
  The second inner loop sends the queries. A send error drops the query; when it is the
  timeout error the receiver is removed from the routing table. The result is the list of
  channels: \<open>Some m\<close> delivers \<open>m\<close>, \<open>None\<close> never delivers.
\<close>

fun sendQueries :: "env \<Rightarrow> message list \<Rightarrow> DHT \<Rightarrow> panic + (message option list \<times> DHT)" where
  "sendQueries e [] d = Inr ([], d)"
| "sendQueries e (q # qs) d =
     (let d1 = send d q True
      in case sendMessage e q (msgCounter d) of
           SendError err \<Rightarrow>
             (if err = ''timed out waiting for ack''
              then (case Receiver q of
                      None \<Rightarrow> Inl NilDereference
                    | Some r \<Rightarrow>
                        sendQueries e qs (d1\<lparr>ht := removeNode e (ht d1) (NetworkNode.ID r)\<rparr>))
              else sendQueries e qs d1)
         | Reply m \<Rightarrow>
             (case sendQueries e qs d1 of
                Inl p \<Rightarrow> Inl p
              | Inr (chans, d2) \<Rightarrow> Inr (Some m # chans, d2))
         | NoReply \<Rightarrow>
             (case sendQueries e qs d1 of
                Inl p \<Rightarrow> Inl p
              | Inr (chans, d2) \<Rightarrow> Inr (None # chans, d2)))"

text \<open>The third inner loop reads every channel in turn; it blocks for ever on a channel that
  never delivers (\<open>None\<close>).\<close>

fun awaitAll :: "message option list \<Rightarrow> message list option" where
  "awaitAll [] = Some []"
| "awaitAll (None # chans) = None"
| "awaitAll (Some m # chans) =
     (case awaitAll chans of None \<Rightarrow> None | Some results \<Rightarrow> Some (m # results))"

text \<open>
  The fourth inner loop merges the results into the shortlist. A result with an error removes
  \<^verbatim>\<open>result.Receiver\<close> from the shortlist and is otherwise skipped. A FindValue result with a
  value ends \<^verbatim>\<open>iterate\<close> at once (\<open>Hit\<close>).
\<close>

datatype merged = Hit bytes DHT | Merged "NetworkNode list" DHT

fun processResults ::
  "env \<Rightarrow> iterateType \<Rightarrow> message list \<Rightarrow> NetworkNode list \<Rightarrow> DHT \<Rightarrow> panic + merged" where
  "processResults e t [] nodes d = Inr (Merged nodes d)"
| "processResults e t (result # results) nodes d =
     (case Error result of
        Some err \<Rightarrow>
          (case Receiver result of
             None \<Rightarrow> Inl NilDereference
           | Some r \<Rightarrow> processResults e t results (RemoveNode nodes r) d)
      | None \<Rightarrow>
          (case t of
             iterateFindNode \<Rightarrow>
               (case Data result of
                  responseDataFindNode closest \<Rightarrow>
                    (case addNodes e closest d of
                       Inl p \<Rightarrow> Inl p
                     | Inr d' \<Rightarrow>
                         processResults e t results (AppendUniqueNetworkNodes nodes closest) d')
                | _ \<Rightarrow> Inl TypeAssertion)
           | iterateFindValue \<Rightarrow>
               (case Data result of
                  responseDataFindValue closest val \<Rightarrow>
                    (case val of
                       Some v \<Rightarrow> Inr (Hit v d)
                     | None \<Rightarrow>
                         (case addNodes e closest d of
                            Inl p \<Rightarrow> Inl p
                          | Inr d' \<Rightarrow>
                              processResults e t results (AppendUniqueNetworkNodes nodes closest) d'))
                | _ \<Rightarrow> Inl TypeAssertion)
           | iterateStore \<Rightarrow>
               (case Data result of
                  responseDataFindNode closest \<Rightarrow>
                    (case addNodes e closest d of
                       Inl p \<Rightarrow> Inl p
                     | Inr d' \<Rightarrow>
                         processResults e t results (AppendUniqueNetworkNodes nodes closest) d')
                | _ \<Rightarrow> Inl TypeAssertion)))"

text \<open>The local variables of \<^verbatim>\<open>iterate\<close> that live across the rounds of its outer loop.\<close>

record iterState =
  sl :: "NetworkNode list"
  contacted :: "bytes set"
  closestNode :: NetworkNode
  dhtState :: DHT

datatype roundResult =
    Panic panic
  | Found bytes DHT
  | Converged "NetworkNode list" DHT
  | Continue iterState

text \<open>
  One round of the outer loop. \<open>None\<close>: the round blocks for ever on a channel. After the
  merge the shortlist is sorted; reading its head panics when it is empty. The round ends the
  loop (\<open>Converged\<close>) when the head has the id of \<^verbatim>\<open>closestNode\<close>.
\<close>

definition iterateRound :: "env \<Rightarrow> iterateType \<Rightarrow> bytes \<Rightarrow> iterState \<Rightarrow> roundResult option" where
  "iterateRound e t target st =
     (case buildQueries t (Self (ht (dhtState st))) target (take alpha (sl st)) (contacted st) of
        (queries, contacted') \<Rightarrow>
          (case sendQueries e queries (dhtState st) of
             Inl p \<Rightarrow> Some (Panic p)
           | Inr (chans, d1) \<Rightarrow>
               (case awaitAll chans of
                  None \<Rightarrow> None
                | Some results \<Rightarrow>
                    (case processResults e t results (sl st) d1 of
                       Inl p \<Rightarrow> Some (Panic p)
                     | Inr (Hit v d2) \<Rightarrow> Some (Found v d2)
                     | Inr (Merged nodes d2) \<Rightarrow>
                         (case sortShortList target nodes of
                            [] \<Rightarrow> Some (Panic IndexOutOfRange)
                          | n0 # rest \<Rightarrow>
                              (if NetworkNode.ID n0 = NetworkNode.ID (closestNode st)
                               then Some (Converged (n0 # rest) d2)
                               else Some (Continue
                                            \<lparr>sl = n0 # rest, contacted = contacted',
                                             closestNode = n0, dhtState = d2\<rparr>)))))))"

partial_function (option) iterateLoop ::
  "env \<Rightarrow> iterateType \<Rightarrow> bytes \<Rightarrow> iterState \<Rightarrow> roundResult option" where
  "iterateLoop e t target st =
     (case iterateRound e t target st of
        None \<Rightarrow> None
      | Some r \<Rightarrow>
          (case r of
             Continue st' \<Rightarrow> iterateLoop e t target st'
           | _ \<Rightarrow> Some r))"

definition storeQuery :: "NetworkNode \<Rightarrow> NetworkNode \<Rightarrow> bytes \<Rightarrow> bytes \<Rightarrow> message" where
  "storeQuery self n target dat =
     \<lparr>ID = 0, Sender = Some self, Receiver = Some n, IsResponse = False,
      Type = messageTypeQueryStore, Error = None, Data = queryDataStore target dat\<rparr>"

text \<open>The loop of the \<^verbatim>\<open>iterateStore\<close> case at convergence: \<open>i\<close> is the index of the first node
  of the list; the loop returns at index \<open>k\<close>.\<close>

fun storeLoop :: "nat \<Rightarrow> NetworkNode list \<Rightarrow> bytes \<Rightarrow> bytes \<Rightarrow> DHT \<Rightarrow> DHT" where
  "storeLoop i [] target dat d = d"
| "storeLoop i (n # ns) target dat d =
     (if k \<le> i then d
      else storeLoop (Suc i) ns target dat
             (send d (storeQuery (Self (ht d)) n target dat) False))"

text \<open>
  \<^verbatim>\<open>iterate\<close> returns \<^verbatim>\<open>(value, closest, err)\<close>; \<^verbatim>\<open>err\<close> is nil on every path. The model returns
  \<open>None\<close> when the call never returns, \<open>Inl\<close> when it panics, and otherwise the value, the closest
  nodes and the state of the DHT after the call.
\<close>

definition iterate ::
  "env \<Rightarrow> iterateType \<Rightarrow> bytes \<Rightarrow> bytes \<Rightarrow> DHT \<Rightarrow>
     (panic + (bytes option \<times> NetworkNode list option \<times> DHT)) option" where
  "iterate e t target dat d =
     (case getClosestContacts e (ht d) alpha target [] of
        [] \<Rightarrow> Some (Inr (None, None, d))
      | n0 # rest \<Rightarrow>
          (case iterateLoop e t target
                  \<lparr>sl = n0 # rest, contacted = {}, closestNode = n0, dhtState = d\<rparr> of
             None \<Rightarrow> None
           | Some (Panic p) \<Rightarrow> Some (Inl p)
           | Some (Found v d') \<Rightarrow> Some (Inr (Some v, None, d'))
           | Some (Converged nodes d') \<Rightarrow>
               (case t of
                  iterateFindNode \<Rightarrow> Some (Inr (None, Some nodes, d'))
                | iterateFindValue \<Rightarrow> Some (Inr (None, Some nodes, d'))
                | iterateStore \<Rightarrow> Some (Inr (None, None, storeLoop 0 nodes target dat d')))
           | Some (Continue st) \<Rightarrow> None))"

section \<open>The public operations and the listen loop\<close>

text \<open>
  \<^verbatim>\<open>sha := sha1.New(); key := sha.Sum(data)\<close>. \<^verbatim>\<open>Sum(b)\<close> of Go's \<^verbatim>\<open>hash.Hash\<close> appends the
  digest of what has been written to the hash to \<open>b\<close> and returns the resulting slice; it
  does not write \<open>b\<close> to the hash. \<open>written\<close> is what has been written so far: nothing, for a
  new hash.
\<close>

definition hashSum :: "env \<Rightarrow> bytes \<Rightarrow> bytes \<Rightarrow> bytes" where
  "hashSum e written b = b @ sha1 e written"

text \<open>
  \<^verbatim>\<open>dht.store.Store(key, data)\<close>: both call sites, in \<^verbatim>\<open>DHT.Store\<close> and in the listener, pass the
  key and the data and nothing else; neither passes an expiration or a publisher flag, and
  the constant \<^verbatim>\<open>tExpire\<close> is read nowhere. The store is the one that the caller of \<^verbatim>\<open>NewDHT\<close>
  hands in. The store of the sources is \<^verbatim>\<open>MemoryStore\<close>, whose \<^verbatim>\<open>Store\<close> takes four arguments;
  the method of two arguments through which the DHT reaches it is not part of the sources.
  It hands the key and the data on as they are. The expiration and the publisher flag that
  it supplies are the parameter \<open>storeArguments\<close>, which may depend on the time of the call,
  the key and the data.
\<close>

definition storeKeyData :: "env \<Rightarrow> time \<Rightarrow> MemoryStore \<Rightarrow> bytes \<Rightarrow> bytes \<Rightarrow> MemoryStore" where
  "storeKeyData e now ms key dat =
     (case storeArguments e now key dat of
        (expiration, publisher) \<Rightarrow> MemoryStore_Store now ms key dat expiration publisher)"

text \<open>\<^verbatim>\<open>DHT.Store(data)\<close> returns the key string and an error, which is that of \<^verbatim>\<open>iterate\<close> and
  so always nil.\<close>

definition DHT_Store :: "env \<Rightarrow> time \<Rightarrow> DHT \<Rightarrow> bytes \<Rightarrow> (panic + (string \<times> DHT)) option" where
  "DHT_Store e now d dat =
     (let key = hashSum e [] dat;
          d1 = d\<lparr>store := storeKeyData e now (store d) key dat\<rparr>
      in case iterate e iterateStore key dat d1 of
           None \<Rightarrow> None
         | Some (Inl p) \<Rightarrow> Some (Inl p)
         | Some (Inr (v, closest, d2)) \<Rightarrow> Some (Inr (b58Encode e key, d2)))"

definition DHT_Get ::
  "env \<Rightarrow> DHT \<Rightarrow> string \<Rightarrow> (panic + (bytes option \<times> bool \<times> DHT)) option" where
  "DHT_Get e d key =
     (let keyBytes = b58Decode e key
      in case MemoryStore_Retrieve (store d) keyBytes of
           Some v \<Rightarrow> Some (Inr (Some v, True, d))
         | None \<Rightarrow>
             (case iterate e iterateFindValue keyBytes [] d of
                None \<Rightarrow> None
              | Some (Inl p) \<Rightarrow> Some (Inl p)
              | Some (Inr (v, closest, d')) \<Rightarrow> Some (Inr (v, v \<noteq> None, d'))))"

definition Bootstrap ::
  "env \<Rightarrow> NetworkNode list \<Rightarrow> DHT \<Rightarrow> (panic + DHT) option" where
  "Bootstrap e bootstrapNodes d =
     (case addNodes e bootstrapNodes d of
        Inl p \<Rightarrow> Some (Inl p)
      | Inr d1 \<Rightarrow>
          (case iterate e iterateFindNode (NetworkNode.ID (Self (ht d1))) [] d1 of
             None \<Rightarrow> None
           | Some (Inl p) \<Rightarrow> Some (Inl p)
           | Some (Inr (v, closest, d2)) \<Rightarrow> Some (Inr d2)))"

text \<open>A response goes out under the id of the query it answers; \<^verbatim>\<open>msgCounter\<close> is not
  touched.\<close>

definition respond :: "DHT \<Rightarrow> message \<Rightarrow> 64 word \<Rightarrow> DHT" where
  "respond d msg i = d\<lparr>networking := networking d @ [(msg, i, False)]\<rparr>"

text \<open>
  The body of the listen loop for one message from \<^verbatim>\<open>getMessage\<close>, read at time \<open>now\<close>. A
  message of another type falls through the \<^verbatim>\<open>switch\<close>. \<^verbatim>\<open>newNode(msg.Sender)\<close> with a nil
  sender panics where \<^verbatim>\<open>addNode\<close> reads the id.
\<close>

definition handleMessage :: "env \<Rightarrow> time \<Rightarrow> DHT \<Rightarrow> message \<Rightarrow> panic + DHT" where
  "handleMessage e now d msg =
     (case Type msg of
        messageTypeQueryFindNode \<Rightarrow>
          (case Data msg of
             queryDataFindNode target \<Rightarrow>
               (case Sender msg of
                  None \<Rightarrow> Inl NilDereference
                | Some sender \<Rightarrow>
                    (case addNode e d (newNode sender) of
                       Inl p \<Rightarrow> Inl p
                     | Inr d1 \<Rightarrow>
                         (let closest = getClosestContacts e (ht d1) k target [sender];
                              response =
                                \<lparr>ID = 0, Sender = Some (Self (ht d1)), Receiver = Some sender,
                                 IsResponse = True, Type = messageTypeResponseFindNode,
                                 Error = None, Data = responseDataFindNode closest\<rparr>
                          in Inr (respond d1 response (message.ID msg)))))
           | _ \<Rightarrow> Inl TypeAssertion)
      | messageTypeQueryFindValue \<Rightarrow>
          (case Data msg of
             queryDataFindValue target \<Rightarrow>
               (case Sender msg of
                  None \<Rightarrow> Inl NilDereference
                | Some sender \<Rightarrow>
                    (case addNode e d (newNode sender) of
                       Inl p \<Rightarrow> Inl p
                     | Inr d1 \<Rightarrow>
                         (let responseData =
                                (case MemoryStore_Retrieve (store d1) target of
                                   Some v \<Rightarrow> responseDataFindValue [] (Some v)
                                 | None \<Rightarrow>
                                     responseDataFindValue
                                       (getClosestContacts e (ht d1) k target [sender]) None);
                              response =
                                \<lparr>ID = message.ID msg, Sender = Some (Self (ht d1)),
                                 Receiver = Some sender, IsResponse = True,
                                 Type = messageTypeResponseFindValue, Error = None,
                                 Data = responseData\<rparr>
                          in Inr (respond d1 response (message.ID msg)))))
           | _ \<Rightarrow> Inl TypeAssertion)
      | messageTypeQueryStore \<Rightarrow>
          (case Data msg of
             queryDataStore key dat \<Rightarrow>
               (case Sender msg of
                  None \<Rightarrow> Inl NilDereference
                | Some sender \<Rightarrow>
                    (case addNode e d (newNode sender) of
                       Inl p \<Rightarrow> Inl p
                     | Inr d1 \<Rightarrow> Inr (d1\<lparr>store := storeKeyData e now (store d1) key dat\<rparr>)))
           | _ \<Rightarrow> Inl TypeAssertion)
      | messageTypeQueryPing \<Rightarrow>
          (let response =
                 \<lparr>ID = 0, Sender = Some (Self (ht d)), Receiver = Sender msg,
                  IsResponse = True, Type = messageTypeResponsePing,
                  Error = None, Data = noData\<rparr>
           in Inr (respond d response (message.ID msg)))
      | _ \<Rightarrow> Inr d)"

text \<open>The listen loop over the messages that \<^verbatim>\<open>getMessage\<close> yields before it yields nil, each
  with the time at which it is handled.\<close>

fun listen :: "env \<Rightarrow> (time \<times> message) list \<Rightarrow> DHT \<Rightarrow> panic + DHT" where
  "listen e [] d = Inr d"
| "listen e ((now, msg) # msgs) d =
     (case handleMessage e now d msg of
        Inl p \<Rightarrow> Inl p
      | Inr d' \<Rightarrow> listen e msgs d')"

section \<open>A small network used to run the operations\<close>

text \<open>
  A node with the one-byte id \<open>0\<close> and eight buckets. The bucket of a peer is the position of
  the highest bit in which its id differs from the other id. The peer \<open>9\<close> knows the peers \<open>6\<close>
  and \<open>5\<close>, which know each other; the peer \<open>5\<close> holds the value \<open>[42]\<close> under the key \<open>[7]\<close>.
  A peer answers a FindNode query with a FindNode response and a FindValue query with a
  FindValue response, as the listener does. The peer \<open>128\<close> answers pings, no other peer
  does; a query to any other peer times out. The digest is a stand-in of 20 bytes. The store
  of the node keeps a pair for one hour.
\<close>

definition mkNode :: "nat \<Rightarrow> NetworkNode" where
  "mkNode i = \<lparr>NetworkNode.ID = [of_nat i], IP = [127, 0, 0, 1], Port = 3000 + int i\<rparr>"

definition demoBucketIndex :: "bytes \<Rightarrow> bytes \<Rightarrow> int" where
  "demoBucketIndex a b =
     (let x = getDistance a b
      in if x < 2 then 0 else if x < 4 then 1 else if x < 8 then 2 else if x < 16 then 3
         else if x < 32 then 4 else if x < 64 then 5 else if x < 128 then 6 else 7)"

definition demoResponse :: "message \<Rightarrow> NetworkNode list \<Rightarrow> message" where
  "demoResponse q closest =
     \<lparr>ID = 0, Sender = Receiver q, Receiver = Sender q, IsResponse = True,
      Type = (if Type q = messageTypeQueryFindValue then messageTypeResponseFindValue
              else messageTypeResponseFindNode),
      Error = None,
      Data = (if Type q = messageTypeQueryFindValue then responseDataFindValue closest None
              else responseDataFindNode closest)\<rparr>"

definition demoSend :: "message \<Rightarrow> 64 word \<Rightarrow> sendOutcome" where
  "demoSend q i =
     (case Receiver q of
        None \<Rightarrow> SendError ''no receiver''
      | Some r \<Rightarrow>
          (if Type q = messageTypeQueryPing then
             (if NetworkNode.ID r = [128]
              then Reply ((demoResponse q [])\<lparr>Type := messageTypeResponsePing, Data := noData\<rparr>)
              else NoReply)
           else if NetworkNode.ID r = [9] then Reply (demoResponse q [mkNode 6, mkNode 5])
           else if NetworkNode.ID r = [6] then Reply (demoResponse q [mkNode 5])
           else if NetworkNode.ID r = [5] then
             (if Type q = messageTypeQueryFindValue \<and> Data q = queryDataFindValue [7]
              then Reply ((demoResponse q [])\<lparr>Data := responseDataFindValue [] (Some [42])\<rparr>)
              else Reply (demoResponse q [mkNode 6]))
           else SendError ''timed out waiting for ack''))"

definition demoEnv :: env where
  "demoEnv =
     \<lparr>getBucketIndexFromDifferingBit = demoBucketIndex,
      getClosestContacts = (\<lambda>h num target ignored.
         take num (sortShortList target
           (filter (\<lambda>n. \<not> list_ex (\<lambda>v. NetworkNode.ID v = NetworkNode.ID n) ignored)
              (concat (RoutingTable h))))),
      removeNode = (\<lambda>h i.
         h\<lparr>RoutingTable := map (filter (\<lambda>n. NetworkNode.ID n \<noteq> i)) (RoutingTable h)\<rparr>),
      sendMessage = demoSend,
      storeArguments = (\<lambda>now key dat. (now + hour, False)),
      sha1 = (\<lambda>m. replicate 20 (of_nat (length m))),
      b58Encode = map (\<lambda>b. char_of (unat b)),
      b58Decode = map (\<lambda>c. of_nat (of_char c))\<rparr>"

definition demoDHT :: "node list list \<Rightarrow> DHT" where
  "demoDHT table =
     \<lparr>ht = \<lparr>Self = mkNode 0, RoutingTable = table\<rparr>,
      store = MemoryStore_Init, msgCounter = 0, networking = []\<rparr>"

definition fullBucket :: "node list" where
  "fullBucket = map mkNode [128 ..< 148]"

definition agedBucket :: "node list" where
  "agedBucket = map mkNode [129 ..< 149]"

definition demoTable :: "node list list \<Rightarrow> node list list" where
  "demoTable buckets = [[], [], [mkNode 6, mkNode 5], [], [], [], []] @ buckets"

lemmas demo_defs =
  demoEnv_def demoDHT_def demoTable_def mkNode_def getDistance_def demoBucketIndex_def
  fullBucket_def agedBucket_def k_def demoSend_def demoResponse_def pingQuery_def send_def
  setBucket_def upt_rec [of "numeral m" for m]

lemma addNode_demo_present:
  "addNode demoEnv (demoDHT (demoTable [fullBucket])) (mkNode 6) =
     Inr (demoDHT (demoTable [fullBucket]))"
  by (simp add: addNode_def demo_defs)

lemma addNode_demo_pong:
  "addNode demoEnv (demoDHT (demoTable [fullBucket])) (mkNode 200) =
     Inr (send (demoDHT (demoTable [fullBucket])) (pingQuery (mkNode 0) (mkNode 128)) True)"
  by (simp add: addNode_def demo_defs)

lemma addNode_demo_silent:
  "addNode demoEnv (demoDHT (demoTable [agedBucket])) (mkNode 200) =
     Inr (send (demoDHT (demoTable [tl agedBucket @ [mkNode 200]]))
            (pingQuery (mkNode 0) (mkNode 129)) True)"
  by (simp add: addNode_def demo_defs)

section \<open>Properties of addNode\<close>

definition bucketsWithinK :: "DHT \<Rightarrow> bool" where
  "bucketsWithinK d = list_all (\<lambda>bucket. length bucket \<le> k) (RoutingTable (ht d))"

lemma send_ht [simp]: "ht (send d msg x) = ht d"
  by (simp add: send_def)

lemma setBucket_table [simp]:
  "RoutingTable (ht (setBucket d i b)) = (RoutingTable (ht d))[i := b]"
  by (simp add: setBucket_def)

lemma list_all_update:
  "list_all P xs \<Longrightarrow> P x \<Longrightarrow> list_all P (xs[i := x])"
  by (induction xs arbitrary: i) (auto split: nat.splits)

text \<open>What \<^verbatim>\<open>addNode\<close> does to the routing table when it returns, case by case.\<close>

lemma addNode_cases:
  assumes "addNode e d nd = Inr d'"
    and "index = getBucketIndexFromDifferingBit e (NetworkNode.ID (Self (ht d))) (NetworkNode.ID nd)"
    and "bucket = RoutingTable (ht d) ! nat index"
  shows "0 \<le> index \<and> nat index < length (RoutingTable (ht d)) \<and>
         (if list_ex (\<lambda>v. NetworkNode.ID v = NetworkNode.ID nd) bucket then d' = d
          else if length bucket = k then
            (case sendMessage e (pingQuery (Self (ht d)) (hd bucket)) (msgCounter d) of
               Reply r \<Rightarrow> d' = send d (pingQuery (Self (ht d)) (hd bucket)) True
             | _ \<Rightarrow> d' = setBucket (send d (pingQuery (Self (ht d)) (hd bucket)) True)
                          (nat index) (tl bucket @ [nd]))
          else d' = setBucket d (nat index) (bucket @ [nd]))"
proof -
  from assms(1) have inrange: "\<not> (index < 0 \<or> int (length (RoutingTable (ht d))) \<le> index)"
    by (auto simp: addNode_def assms(2) Let_def split: if_splits)
  then have r: "0 \<le> index \<and> nat index < length (RoutingTable (ht d))" by linarith
  from assms(1) inrange
  have "if list_ex (\<lambda>v. NetworkNode.ID v = NetworkNode.ID nd) bucket then d' = d
          else if length bucket = k then
            (case sendMessage e (pingQuery (Self (ht d)) (hd bucket)) (msgCounter d) of
               Reply r \<Rightarrow> d' = send d (pingQuery (Self (ht d)) (hd bucket)) True
             | _ \<Rightarrow> d' = setBucket (send d (pingQuery (Self (ht d)) (hd bucket)) True)
                          (nat index) (tl bucket @ [nd]))
          else d' = setBucket d (nat index) (bucket @ [nd])"
    unfolding addNode_def assms(2) [symmetric] Let_def assms(3) [symmetric]
    by (auto split: if_splits list.splits sendOutcome.splits)
  with r show ?thesis by simp
qed

lemma addNode_within:
  assumes "bucketsWithinK d" and "addNode e d nd = Inr d'"
  shows "bucketsWithinK d'"
proof -
  define index where
    "index = getBucketIndexFromDifferingBit e (NetworkNode.ID (Self (ht d))) (NetworkNode.ID nd)"
  define bucket where "bucket = RoutingTable (ht d) ! nat index"
  note c = addNode_cases [OF assms(2) index_def bucket_def]
  then have "bucket \<in> set (RoutingTable (ht d))"
    unfolding bucket_def by (intro nth_mem) simp
  with assms(1) have len: "length bucket \<le> k"
    by (simp add: bucketsWithinK_def list_all_iff)
  have small: "length bucket \<noteq> k \<Longrightarrow> length (bucket @ [nd]) \<le> k" using len by simp
  have full: "length bucket = k \<Longrightarrow> length (tl bucket @ [nd]) \<le> k"
    by (cases bucket) (auto simp: k_def)
  from c have "d' = d \<or> RoutingTable (ht d') = RoutingTable (ht d)
        \<or> (length bucket = k \<and>
            RoutingTable (ht d') = (RoutingTable (ht d))[nat index := tl bucket @ [nd]])
        \<or> (length bucket \<noteq> k \<and>
            RoutingTable (ht d') = (RoutingTable (ht d))[nat index := bucket @ [nd]])"
    by (auto split: if_splits sendOutcome.splits)
  with assms(1) small full show ?thesis
    unfolding bucketsWithinK_def by (metis list_all_update)
qed

lemma addNodes_within:
  "bucketsWithinK d \<Longrightarrow> addNodes e ns d = Inr d' \<Longrightarrow> bucketsWithinK d'"
proof (induction ns arbitrary: d)
  case Nil
  then show ?case by simp
next
  case (Cons n ns)
  then show ?case
    by (auto simp: newNode_def split: sum.splits dest: addNode_within)
qed

text \<open>
  C9: bucket capacity is invariant. From a table whose buckets all have length \<open>\<le> k\<close>, after
  every call of a sequence of \<^verbatim>\<open>addNode\<close> calls that returns (that is, after every prefix
  \<open>take m ns\<close> of the sequence), every bucket still has length \<open>\<le> k\<close>, and \<open>k = 20\<close>.
\<close>

theorem addNode_bucket_capacity:
  assumes "bucketsWithinK d"
  shows "\<forall>m dm. addNodes e (take m ns) d = Inr dm \<longrightarrow>
           (\<forall>bucket \<in> set (RoutingTable (ht dm)). length bucket \<le> k) \<and> k = 20"
proof (intro allI impI)
  fix m dm
  assume "addNodes e (take m ns) d = Inr dm"
  with assms have "bucketsWithinK dm" by (rule addNodes_within)
  then show "(\<forall>bucket \<in> set (RoutingTable (ht dm)). length bucket \<le> k) \<and> k = 20"
    by (simp add: bucketsWithinK_def list_all_iff k_def)
qed

theorem addNode_bucket_capacity_witness:
  "bucketsWithinK (demoDHT (demoTable [agedBucket])) \<and>
   addNodes demoEnv (take 2 [mkNode 6, mkNode 200, mkNode 201]) (demoDHT (demoTable [agedBucket])) =
     Inr (send (demoDHT (demoTable [tl agedBucket @ [mkNode 200]]))
            (pingQuery (mkNode 0) (mkNode 129)) True) \<and>
   list_all (\<lambda>bucket. length bucket \<le> 20)
     (RoutingTable (ht (send (demoDHT (demoTable [tl agedBucket @ [mkNode 200]]))
                          (pingQuery (mkNode 0) (mkNode 129)) True))) \<and>
   length (tl agedBucket @ [mkNode 200]) = 20"
proof -
  have w: "bucketsWithinK (demoDHT (demoTable [agedBucket]))"
    by (simp add: bucketsWithinK_def demo_defs)
  have t: "take 2 [mkNode 6, mkNode 200, mkNode 201] = [mkNode 6, mkNode 200]"
    by (simp add: numeral_2_eq_2)
  have p: "demoDHT (demoTable [agedBucket]) = demoDHT (demoTable [fullBucket]) \<or>
           addNode demoEnv (demoDHT (demoTable [agedBucket])) (mkNode 6) =
             Inr (demoDHT (demoTable [agedBucket]))"
    by (simp add: addNode_def demo_defs)
  have r: "addNodes demoEnv (take 2 [mkNode 6, mkNode 200, mkNode 201])
             (demoDHT (demoTable [agedBucket])) =
           Inr (send (demoDHT (demoTable [tl agedBucket @ [mkNode 200]]))
                  (pingQuery (mkNode 0) (mkNode 129)) True)"
    unfolding t using p addNode_demo_silent
    by (auto simp: newNode_def addNode_demo_present)
  have l: "length (tl agedBucket @ [mkNode 200]) = 20"
    by (simp add: agedBucket_def)
  from addNode_bucket_capacity [OF w, of demoEnv "[mkNode 6, mkNode 200, mkNode 201]",
      rule_format, OF r]
  have "list_all (\<lambda>bucket. length bucket \<le> 20)
     (RoutingTable (ht (send (demoDHT (demoTable [tl agedBucket @ [mkNode 200]]))
                          (pingQuery (mkNode 0) (mkNode 129)) True)))"
    by (simp add: list_all_iff)
  with w r l show ?thesis by simp
qed

text \<open>
  C4, as the claim states it, fails in two of its three parts. A contact whose id is already
  in its bucket is not moved: the bucket \<open>[6, 5]\<close> stays \<open>[6, 5]\<close> when \<open>6\<close> is added again. When
  the bucket is full and its head (here \<open>128\<close>) answers the ping, the new contact is discarded
  and the head stays at the head: the bucket is what it was.
\<close>

theorem addNode_moves_nothing_to_tail:
  "addNode demoEnv (demoDHT (demoTable [fullBucket])) (mkNode 6) =
     Inr (demoDHT (demoTable [fullBucket])) \<and>
   RoutingTable (ht (demoDHT (demoTable [fullBucket]))) ! 2 = [mkNode 6, mkNode 5] \<and>
   [mkNode 6, mkNode 5] \<noteq> [mkNode 5, mkNode 6] \<and>
   length fullBucket = k \<and>
   sendMessage demoEnv (pingQuery (mkNode 0) (mkNode 128)) 0 =
     Reply ((demoResponse (pingQuery (mkNode 0) (mkNode 128)) [])
              \<lparr>Type := messageTypeResponsePing, Data := noData\<rparr>) \<and>
   addNode demoEnv (demoDHT (demoTable [fullBucket])) (mkNode 200) =
     Inr (send (demoDHT (demoTable [fullBucket])) (pingQuery (mkNode 0) (mkNode 128)) True) \<and>
   RoutingTable (ht (send (demoDHT (demoTable [fullBucket]))
                       (pingQuery (mkNode 0) (mkNode 128)) True)) ! 7 = fullBucket \<and>
   hd fullBucket = mkNode 128 \<and> last fullBucket = mkNode 147 \<and> mkNode 147 \<noteq> mkNode 128"
proof -
  have a: "RoutingTable (ht (demoDHT (demoTable [fullBucket]))) ! 2 = [mkNode 6, mkNode 5]"
    by (simp add: demoDHT_def demoTable_def)
  have b: "[mkNode 6, mkNode 5] \<noteq> [mkNode 5, mkNode 6]" "mkNode 147 \<noteq> mkNode 128"
    by (simp_all add: mkNode_def)
  have c: "length fullBucket = k" "hd fullBucket = mkNode 128" "last fullBucket = mkNode 147"
    by (simp_all add: fullBucket_def k_def upt_rec [of "numeral m" for m])
  have d: "sendMessage demoEnv (pingQuery (mkNode 0) (mkNode 128)) 0 =
     Reply ((demoResponse (pingQuery (mkNode 0) (mkNode 128)) [])
              \<lparr>Type := messageTypeResponsePing, Data := noData\<rparr>)"
    by (simp add: demoEnv_def demoSend_def pingQuery_def mkNode_def)
  have e: "RoutingTable (ht (send (demoDHT (demoTable [fullBucket]))
                       (pingQuery (mkNode 0) (mkNode 128)) True)) ! 7 = fullBucket"
    by (simp add: demoDHT_def demoTable_def)
  from a b c d e addNode_demo_present addNode_demo_pong show ?thesis by simp
qed

text \<open>
  C4, amended: what \<^verbatim>\<open>addNode\<close> does to the bucket of the contact. If the contact's id is
  already in its bucket, the routing table is left as it is (the entry is not moved). If the
  bucket is full and its head answers the ping, the new contact is discarded and the routing
  table is left as it is (the head is not moved). If the bucket is full and the ping send
  fails or no answer comes within \<^verbatim>\<open>tPingMax\<close>, the head is evicted and the new contact is
  appended at the tail; the other buckets are untouched.
\<close>

theorem addNode_bucket_policy:
  assumes "addNode e d nd = Inr d'"
    and "index =
           nat (getBucketIndexFromDifferingBit e (NetworkNode.ID (Self (ht d))) (NetworkNode.ID nd))"
    and "bucket = RoutingTable (ht d) ! index"
    and "ping = sendMessage e (pingQuery (Self (ht d)) (hd bucket)) (msgCounter d)"
  shows "(list_ex (\<lambda>v. NetworkNode.ID v = NetworkNode.ID nd) bucket \<longrightarrow>
            RoutingTable (ht d') = RoutingTable (ht d)) \<and>
         (\<not> list_ex (\<lambda>v. NetworkNode.ID v = NetworkNode.ID nd) bucket \<and> length bucket = k \<and>
          (\<exists>r. ping = Reply r) \<longrightarrow>
            RoutingTable (ht d') = RoutingTable (ht d)) \<and>
         (\<not> list_ex (\<lambda>v. NetworkNode.ID v = NetworkNode.ID nd) bucket \<and> length bucket = k \<and>
          (ping = NoReply \<or> (\<exists>err. ping = SendError err)) \<longrightarrow>
            RoutingTable (ht d') = (RoutingTable (ht d))[index := tl bucket @ [nd]] \<and>
            RoutingTable (ht d') ! index = tl bucket @ [nd] \<and>
            last (RoutingTable (ht d') ! index) = nd)"
proof -
  note c = addNode_cases [OF assms(1) refl refl]
  then have i: "index < length (RoutingTable (ht d))" by (simp add: assms(2))
  from c show ?thesis
    unfolding assms(2) [symmetric] assms(3) [symmetric] assms(4) [symmetric]
    using i by (auto split: if_splits sendOutcome.splits)
qed

theorem addNode_bucket_policy_witness:
  "addNode demoEnv (demoDHT (demoTable [fullBucket])) (mkNode 6) =
     Inr (demoDHT (demoTable [fullBucket])) \<and>
   list_ex (\<lambda>v. NetworkNode.ID v = NetworkNode.ID (mkNode 6)) [mkNode 6, mkNode 5] \<and>
   addNode demoEnv (demoDHT (demoTable [fullBucket])) (mkNode 200) =
     Inr (send (demoDHT (demoTable [fullBucket])) (pingQuery (mkNode 0) (mkNode 128)) True) \<and>
   \<not> list_ex (\<lambda>v. NetworkNode.ID v = NetworkNode.ID (mkNode 200)) fullBucket \<and>
   length fullBucket = k \<and>
   RoutingTable (ht (send (demoDHT (demoTable [fullBucket]))
                       (pingQuery (mkNode 0) (mkNode 128)) True)) =
     RoutingTable (ht (demoDHT (demoTable [fullBucket]))) \<and>
   addNode demoEnv (demoDHT (demoTable [agedBucket])) (mkNode 200) =
     Inr (send (demoDHT (demoTable [tl agedBucket @ [mkNode 200]]))
            (pingQuery (mkNode 0) (mkNode 129)) True) \<and>
   \<not> list_ex (\<lambda>v. NetworkNode.ID v = NetworkNode.ID (mkNode 200)) agedBucket \<and>
   length agedBucket = k \<and>
   sendMessage demoEnv (pingQuery (mkNode 0) (mkNode 129)) 0 = NoReply \<and>
   RoutingTable (ht (send (demoDHT (demoTable [tl agedBucket @ [mkNode 200]]))
                       (pingQuery (mkNode 0) (mkNode 129)) True)) ! 7 =
     tl agedBucket @ [mkNode 200] \<and>
   hd (tl agedBucket @ [mkNode 200]) = mkNode 130"
proof -
  let ?d = "demoDHT (demoTable [agedBucket])"
  let ?f = "demoDHT (demoTable [fullBucket])"
  have ix: "(7::nat) = nat (getBucketIndexFromDifferingBit demoEnv (NetworkNode.ID (Self (ht ?d)))
                      (NetworkNode.ID (mkNode 200)))"
    by (simp add: demo_defs)
  have bk: "agedBucket = RoutingTable (ht ?d) ! 7"
    by (simp add: demoDHT_def demoTable_def)
  have hd: "hd agedBucket = mkNode 129"
    by (simp add: agedBucket_def upt_rec [of "numeral m" for m])
  have pg: "NoReply = sendMessage demoEnv (pingQuery (Self (ht ?d)) (hd agedBucket)) (msgCounter ?d)"
    unfolding hd by (simp add: demoEnv_def demoSend_def pingQuery_def mkNode_def demoDHT_def)
  have np: "\<not> list_ex (\<lambda>v. NetworkNode.ID v = NetworkNode.ID (mkNode 200)) agedBucket"
    by (simp add: demo_defs)
  have len: "length agedBucket = k"
    by (simp add: agedBucket_def k_def)
  have h2: "hd (tl agedBucket @ [mkNode 200]) = mkNode 130"
    by (simp add: agedBucket_def upt_rec [of "numeral m" for m])
  from addNode_bucket_policy [OF addNode_demo_silent ix bk pg] np len
  have evict: "RoutingTable (ht (send (demoDHT (demoTable [tl agedBucket @ [mkNode 200]]))
                       (pingQuery (mkNode 0) (mkNode 129)) True)) ! 7 =
     tl agedBucket @ [mkNode 200]"
    by blast
  have ix6: "(2::nat) = nat (getBucketIndexFromDifferingBit demoEnv (NetworkNode.ID (Self (ht ?f)))
                      (NetworkNode.ID (mkNode 6)))"
    by (simp add: demo_defs)
  have bk6: "[mkNode 6, mkNode 5] = RoutingTable (ht ?f) ! 2"
    by (simp add: demoDHT_def demoTable_def)
  have p6: "list_ex (\<lambda>v. NetworkNode.ID v = NetworkNode.ID (mkNode 6)) [mkNode 6, mkNode 5]"
    by simp
  have ixf: "(7::nat) = nat (getBucketIndexFromDifferingBit demoEnv (NetworkNode.ID (Self (ht ?f)))
                      (NetworkNode.ID (mkNode 200)))"
    by (simp add: demo_defs)
  have bkf: "fullBucket = RoutingTable (ht ?f) ! 7"
    by (simp add: demoDHT_def demoTable_def)
  have npf: "\<not> list_ex (\<lambda>v. NetworkNode.ID v = NetworkNode.ID (mkNode 200)) fullBucket"
    by (simp add: demo_defs)
  have lenf: "length fullBucket = k"
    by (simp add: fullBucket_def k_def)
  have hdf: "hd fullBucket = mkNode 128"
    by (simp add: fullBucket_def upt_rec [of "numeral m" for m])
  have pgf: "Reply ((demoResponse (pingQuery (mkNode 0) (mkNode 128)) [])
                     \<lparr>Type := messageTypeResponsePing, Data := noData\<rparr>) =
             sendMessage demoEnv (pingQuery (Self (ht ?f)) (hd fullBucket)) (msgCounter ?f)"
    unfolding hdf by (simp add: demoEnv_def demoSend_def pingQuery_def mkNode_def demoDHT_def)
  from addNode_bucket_policy [OF addNode_demo_present ix6 bk6 refl] p6
  have same: "RoutingTable (ht ?f) = RoutingTable (ht ?f)" by blast
  from addNode_bucket_policy [OF addNode_demo_pong ixf bkf pgf] npf lenf
  have pong: "RoutingTable (ht (send ?f (pingQuery (mkNode 0) (mkNode 128)) True)) =
              RoutingTable (ht ?f)"
    by blast
  have pg': "sendMessage demoEnv (pingQuery (mkNode 0) (mkNode 129)) 0 = NoReply"
    using pg hd by (simp add: demoDHT_def mkNode_def)
  from same addNode_demo_present p6 addNode_demo_pong npf lenf pong addNode_demo_silent np len
    pg' evict h2
  show ?thesis by (intro conjI)
qed

subsection \<open>The sort of the model and any other sort\<close>

text \<open>
  Ids of the length of the target are at different distances from it. So on a shortlist with
  pairwise different ids of that length, every sort by distance, stable or not, gives the
  list that \<open>sortShortList\<close> gives.
\<close>

lemma bigEndian_inj:
  "length a = length b \<Longrightarrow>
   foldl (\<lambda>acc x. acc * 256 + unat x) 0 a = foldl (\<lambda>acc x. acc * 256 + unat x) 0 (b :: bytes) \<Longrightarrow>
   a = b"
proof (induction a b rule: rev_induct2)
  case 1
  then show ?case by simp
next
  case (2 x xs)
  then show ?case by simp
next
  case (3 y ys)
  then show ?case by simp
next
  case (4 x xs y ys)
  let ?v = "foldl (\<lambda>acc x. acc * 256 + unat x) 0"
  from 4(3) have e: "?v xs * 256 + unat x = ?v ys * 256 + unat y" by simp
  have bx: "unat x < 256" and bz: "unat y < 256"
    using unsigned_less [of x, where 'a = nat] unsigned_less [of y, where 'a = nat] by simp_all
  from bx have "(?v xs * 256 + unat x) mod 256 = unat x" by simp
  moreover from bz have "(?v ys * 256 + unat y) mod 256 = unat y" by simp
  ultimately have u: "unat x = unat y" using e by simp
  with e have v: "?v xs = ?v ys" by simp
  from u have "x = y" by (simp add: word_unat_eq_iff)
  moreover from 4(2) have "length xs = length ys" by simp
  ultimately show ?case using 4(1) v by simp
qed

lemma getDistance_inj:
  assumes "length a = length target" and "length b = length target"
    and "getDistance a target = getDistance b target"
  shows "a = b"
proof -
  have l: "length (map2 (XOR) a target) = length (map2 (XOR) b target)" using assms by simp
  from bigEndian_inj [OF l] assms(3) have m: "map2 (XOR) a target = map2 (XOR) b target"
    by (simp add: getDistance_def)
  show ?thesis
  proof (rule nth_equalityI)
    show "length a = length b" using assms by simp
  next
    fix i assume i: "i < length a"
    with assms have "map2 (XOR) a target ! i = a ! i XOR target ! i"
      "map2 (XOR) b target ! i = b ! i XOR target ! i" by simp_all
    with m have "a ! i XOR target ! i = b ! i XOR target ! i" by simp
    then have "(a ! i XOR target ! i) XOR target ! i = (b ! i XOR target ! i) XOR target ! i"
      by simp
    then show "a ! i = b ! i" by (simp add: xor.assoc)
  qed
qed

lemma filter_the_one:
  "distinct zs \<Longrightarrow> x \<in> set zs \<Longrightarrow> filter (\<lambda>z. x = z) zs = [x]"
  by (induction zs) (auto simp: filter_empty_conv)

text \<open>Any sort by distance gives the list of the model when no two nodes of the list are at
  the same distance.\<close>

lemma sortShortList_unique:
  assumes "mset ys = mset nodes"
    and "sorted (map (\<lambda>n. getDistance (NetworkNode.ID n) target) ys)"
    and "inj_on (\<lambda>n. getDistance (NetworkNode.ID n) target) (set nodes)"
    and "distinct nodes"
  shows "sortShortList target nodes = ys"
  unfolding sortShortList_def
proof (rule properties_for_sort_key [OF assms(1) _ assms(2)])
  fix x assume "x \<in> set ys"
  from assms(1) have s: "set ys = set nodes" by (rule mset_eq_setD)
  from assms(1) assms(4) have d: "distinct ys" by (metis mset_eq_imp_distinct_iff)
  have "\<And>zs. set zs = set nodes \<Longrightarrow>
          filter (\<lambda>z. getDistance (NetworkNode.ID x) target = getDistance (NetworkNode.ID z) target) zs =
          filter (\<lambda>z. x = z) zs"
    using assms(3) s \<open>x \<in> set ys\<close> by (intro filter_cong) (auto dest: inj_onD)
  then have "filter (\<lambda>z. getDistance (NetworkNode.ID x) target = getDistance (NetworkNode.ID z) target) ys =
             filter (\<lambda>z. x = z) ys"
    and "filter (\<lambda>z. getDistance (NetworkNode.ID x) target = getDistance (NetworkNode.ID z) target) nodes =
             filter (\<lambda>z. x = z) nodes"
    using s by simp_all
  moreover have "filter (\<lambda>z. x = z) ys = filter (\<lambda>z. x = z) nodes"
    using filter_the_one [OF d \<open>x \<in> set ys\<close>] filter_the_one [OF assms(4), of x]
      \<open>x \<in> set ys\<close> s
    by simp
  ultimately show "filter (\<lambda>z. getDistance (NetworkNode.ID x) target = getDistance (NetworkNode.ID z) target) ys =
        filter (\<lambda>z. getDistance (NetworkNode.ID x) target = getDistance (NetworkNode.ID z) target) nodes"
    by simp
qed

lemma sortShortList_any_sort:
  assumes "mset ys = mset nodes"
    and "sorted (map (\<lambda>n. getDistance (NetworkNode.ID n) target) ys)"
    and "distinct (map NetworkNode.ID nodes)"
    and "\<forall>n \<in> set nodes. length (NetworkNode.ID n) = length target"
  shows "sortShortList target nodes = ys"
proof (rule sortShortList_unique [OF assms(1) assms(2)])
  from assms(3) show "distinct nodes" by (simp add: distinct_map)
  from assms(3) have i: "inj_on NetworkNode.ID (set nodes)" by (simp add: distinct_map)
  show "inj_on (\<lambda>n. getDistance (NetworkNode.ID n) target) (set nodes)"
  proof (rule inj_onI)
    fix a b assume a: "a \<in> set nodes" and b: "b \<in> set nodes"
      and e: "getDistance (NetworkNode.ID a) target = getDistance (NetworkNode.ID b) target"
    from a b assms(4) have "length (NetworkNode.ID a) = length target"
      "length (NetworkNode.ID b) = length target" by simp_all
    from getDistance_inj [OF this e] i a b show "a = b" by (simp add: inj_on_def)
  qed
qed

section \<open>Termination of iterate\<close>

text \<open>
  A network is finite when the ids of the nodes that its replies name all lie in one finite
  set \<open>N\<close>. Its peers respond when no FindNode or FindValue query is left without an answer:
  the send fails or the channel delivers. The queries that a lookup of kind \<open>t\<close> for \<open>target\<close>
  asks are those that \<open>mkQuery\<close> builds for it.
\<close>

definition responseNodes :: "message \<Rightarrow> NetworkNode set" where
  "responseNodes m =
     (case Data m of
        responseDataFindNode closest \<Rightarrow> set closest
      | responseDataFindValue closest v \<Rightarrow> set closest
      | _ \<Rightarrow> {})"

definition finiteNetwork :: "env \<Rightarrow> bytes set \<Rightarrow> bool" where
  "finiteNetwork e N =
     (finite N \<and>
      (\<forall>q i m. sendMessage e q i = Reply m \<longrightarrow> NetworkNode.ID ` responseNodes m \<subseteq> N))"

definition isQuery :: "message \<Rightarrow> bool" where
  "isQuery q = ((Type q = messageTypeQueryFindNode \<or> Type q = messageTypeQueryFindValue) \<and>
                Receiver q \<noteq> None \<and> \<not> IsResponse q)"

definition respondingPeers :: "env \<Rightarrow> bool" where
  "respondingPeers e = (\<forall>q i. isQuery q \<longrightarrow> sendMessage e q i \<noteq> NoReply)"

definition asked :: "iterateType \<Rightarrow> bytes \<Rightarrow> message \<Rightarrow> bool" where
  "asked t target q = (\<exists>self n. q = mkQuery t self n target)"

lemma mkQuery_isQuery: "isQuery (mkQuery t self n target)"
  by (cases t) (simp_all add: mkQuery_def isQuery_def)

lemma asked_isQuery: "asked t target q \<Longrightarrow> isQuery q"
  by (auto simp: asked_def mkQuery_isQuery)

lemma list_all_asked_isQuery: "list_all (asked t target) qs \<Longrightarrow> list_all isQuery qs"
  by (auto simp: list_all_iff asked_isQuery)

lemma buildQueries_props:
  "buildQueries t self target ns c = (qs, c') \<Longrightarrow>
     c \<subseteq> c' \<and> c' \<subseteq> c \<union> NetworkNode.ID ` set ns \<and> (qs = [] \<longrightarrow> c' = c) \<and>
     (qs \<noteq> [] \<longrightarrow> c \<noteq> c') \<and> list_all (asked t target) qs"
proof (induction ns arbitrary: c qs c')
  case Nil
  then show ?case by simp
next
  case (Cons n ns)
  show ?case
  proof (cases "NetworkNode.ID n \<in> c")
    case True
    with Cons.prems have "buildQueries t self target ns c = (qs, c')" by simp
    from Cons.IH [OF this] show ?thesis by auto
  next
    case False
    obtain qs0 c0 where r: "buildQueries t self target ns (insert (NetworkNode.ID n) c) = (qs0, c0)"
      by (cases "buildQueries t self target ns (insert (NetworkNode.ID n) c)") 
    with Cons.prems False have e: "qs = mkQuery t self n target # qs0" "c' = c0" by simp_all
    have "asked t target (mkQuery t self n target)" by (auto simp: asked_def)
    with Cons.IH [OF r] False e show ?thesis
      by auto
  qed
qed

lemma buildQueries_first:
  "buildQueries t self target (n # ns) {} = (qs, c') \<Longrightarrow> qs \<noteq> []"
  by (auto split: prod.splits)

lemma sendQueries_Nil_iff [simp]: "sendQueries e [] d = Inr ([], d)"
  by simp

text \<open>A channel handed back by sendQueries delivers the reply to one of the queries.\<close>

lemma sendQueries_chans:
  assumes "list_all (asked t target) qs" and "respondingPeers e"
  shows "\<exists>chans d1. sendQueries e qs d = Inr (chans, d1) \<and>
           list_all (\<lambda>c. \<exists>m q i. c = Some m \<and> asked t target q \<and> sendMessage e q i = Reply m)
             chans"
  using assms(1)
proof (induction qs arbitrary: d)
  case Nil
  then show ?case by simp
next
  case (Cons q qs)
  then have q: "asked t target q" and qs: "list_all (asked t target) qs" by simp_all
  from q have iq: "isQuery q" by (rule asked_isQuery)
  then have rc: "Receiver q \<noteq> None"
    by (auto simp: isQuery_def)
  from iq assms(2) have nr: "sendMessage e q (msgCounter d) \<noteq> NoReply"
    by (simp add: respondingPeers_def)
  show ?case
  proof (cases "sendMessage e q (msgCounter d)")
    case (SendError err)
    from rc obtain r where r: "Receiver q = Some r" by auto
    show ?thesis
      using SendError r Cons.IH [OF qs, of "send d q True"]
        Cons.IH [OF qs, of "(send d q True)\<lparr>ht := removeNode e (ht (send d q True)) (NetworkNode.ID r)\<rparr>"]
      by (simp add: Let_def)
  next
    case (Reply m)
    from Cons.IH [OF qs, of "send d q True"] obtain chans d1 where
      "sendQueries e qs (send d q True) = Inr (chans, d1)"
      "list_all (\<lambda>c. \<exists>m q i. c = Some m \<and> asked t target q \<and> sendMessage e q i = Reply m) chans"
      by blast
    with Reply q show ?thesis by (auto simp: Let_def)
  next
    case NoReply
    with nr show ?thesis by simp
  qed
qed

lemma awaitAll_delivers:
  "list_all (\<lambda>c. \<exists>m. c = Some m \<and> P m) chans \<Longrightarrow>
     \<exists>results. awaitAll chans = Some results \<and> list_all P results \<and> (chans = [] \<longrightarrow> results = [])"
proof (induction chans)
  case Nil
  then show ?case by simp
next
  case (Cons c chans)
  then show ?case by (cases c) auto
qed


lemma set_AppendUnique:
  "set (AppendUniqueNetworkNodes nodes ns) \<subseteq> set nodes \<union> set ns"
proof (induction ns arbitrary: nodes)
  case Nil
  then show ?case by simp
next
  case (Cons n ns)
  from Cons.IH [of nodes] Cons.IH [of "nodes @ [n]"] show ?case by auto
qed

lemma AppendUnique_prefix:
  "\<exists>more. AppendUniqueNetworkNodes nodes ns = nodes @ more"
proof (induction ns arbitrary: nodes)
  case Nil
  then show ?case by simp
next
  case (Cons n ns)
  from Cons.IH [of nodes] Cons.IH [of "nodes @ [n]"] show ?case by auto
qed

lemma distinct_AppendUnique:
  "distinct (map NetworkNode.ID nodes) \<Longrightarrow>
     distinct (map NetworkNode.ID (AppendUniqueNetworkNodes nodes ns))"
proof (induction ns arbitrary: nodes)
  case Nil
  then show ?case by simp
next
  case (Cons n ns)
  show ?case
  proof (cases "list_ex (\<lambda>v. NetworkNode.ID v = NetworkNode.ID n) nodes")
    case True
    with Cons.IH [OF Cons.prems] show ?thesis by simp
  next
    case False
    with Cons.prems have "distinct (map NetworkNode.ID (nodes @ [n]))"
      by (auto simp: list_ex_iff)
    from Cons.IH [OF this] False show ?thesis by simp
  qed
qed

lemma set_RemoveNode: "set (RemoveNode nodes r) \<subseteq> set nodes"
  by (auto simp: RemoveNode_def)

lemma distinct_RemoveNode:
  "distinct (map NetworkNode.ID nodes) \<Longrightarrow> distinct (map NetworkNode.ID (RemoveNode nodes r))"
  by (simp add: RemoveNode_def distinct_map_filter)

lemma RemoveNode_stranger:
  "NetworkNode.ID r \<notin> NetworkNode.ID ` set nodes \<Longrightarrow> RemoveNode nodes r = nodes"
  by (induction nodes) (auto simp: RemoveNode_def)

lemma set_sortShortList [simp]: "set (sortShortList target nodes) = set nodes"
  by (simp add: sortShortList_def)

lemma distinct_sortShortList:
  "distinct (map NetworkNode.ID nodes) \<Longrightarrow>
     distinct (map NetworkNode.ID (sortShortList target nodes))"
  by (simp add: sortShortList_def distinct_map)

lemma sorted_sortShortList:
  "sorted (map (\<lambda>n. getDistance (NetworkNode.ID n) target) (sortShortList target nodes))"
  by (simp add: sortShortList_def)

lemma sortShortList_sorted_id:
  "sorted (map (\<lambda>n. getDistance (NetworkNode.ID n) target) nodes) \<Longrightarrow>
     sortShortList target nodes = nodes"
  by (simp add: sortShortList_def sort_key_id_if_sorted)

lemma processResults_ids:
  "processResults e t results nodes d = Inr (Merged nodes' d2) \<Longrightarrow>
   list_all (\<lambda>m. NetworkNode.ID ` responseNodes m \<subseteq> N) results \<Longrightarrow>
   NetworkNode.ID ` set nodes \<subseteq> N \<Longrightarrow>
   NetworkNode.ID ` set nodes' \<subseteq> N"
proof (induction results arbitrary: nodes d)
  case Nil
  then show ?case by simp
next
  case (Cons m results)
  have rm: "\<And>r. NetworkNode.ID ` set (RemoveNode nodes r) \<subseteq> N"
    using Cons.prems(3) set_RemoveNode by fastforce
  have ap: "\<And>closest. set closest = responseNodes m \<Longrightarrow>
              NetworkNode.ID ` set (AppendUniqueNetworkNodes nodes closest) \<subseteq> N"
  proof -
    fix closest assume "set closest = responseNodes m"
    with Cons.prems(2) have "NetworkNode.ID ` set closest \<subseteq> N" by simp
    with Cons.prems(3) set_AppendUnique [of nodes closest] show
      "NetworkNode.ID ` set (AppendUniqueNetworkNodes nodes closest) \<subseteq> N" by blast
  qed
  from Cons.prems(2) have rest: "list_all (\<lambda>m. NetworkNode.ID ` responseNodes m \<subseteq> N) results"
    by simp
  show ?case
  proof (cases "Error m")
    case (Some err)
    with Cons.prems(1) obtain r where
      "processResults e t results (RemoveNode nodes r) d = Inr (Merged nodes' d2)"
      by (auto split: option.splits)
    from Cons.IH [OF this rest rm] show ?thesis .
  next
    case None
    with Cons.prems(1) obtain closest d' where
      c: "set closest = responseNodes m" and
      "processResults e t results (AppendUniqueNetworkNodes nodes closest) d' = Inr (Merged nodes' d2)"
      by (cases t; cases "Data m")
         (auto simp: responseNodes_def split: sum.splits option.splits)
    from Cons.IH [OF this(2) rest ap [OF c]] show ?thesis .
  qed
qed


definition iterInv :: "bytes \<Rightarrow> bytes set \<Rightarrow> iterState \<Rightarrow> bool" where
  "iterInv target N st =
     (sl st \<noteq> [] \<and> NetworkNode.ID ` set (sl st) \<subseteq> N \<and>
      (contacted st = {} \<or>
       (sorted (map (\<lambda>n. getDistance (NetworkNode.ID n) target) (sl st)) \<and>
        NetworkNode.ID (closestNode st) = NetworkNode.ID (hd (sl st)))))"

text \<open>The replies that a lookup of kind \<open>t\<close> for \<open>target\<close> can receive from the network.\<close>

definition replyOf :: "env \<Rightarrow> iterateType \<Rightarrow> bytes \<Rightarrow> message \<Rightarrow> bool" where
  "replyOf e t target m = (\<exists>self n i. sendMessage e (mkQuery t self n target) i = Reply m)"

lemma sendQueries_replies:
  assumes "list_all (asked t target) qs" and "respondingPeers e"
  shows "\<exists>chans d1. sendQueries e qs d = Inr (chans, d1) \<and>
           list_all (\<lambda>c. \<exists>m. c = Some m \<and> replyOf e t target m) chans"
proof -
  from sendQueries_chans [OF assms, of d] obtain chans d1 where
    a: "sendQueries e qs d = Inr (chans, d1)" and
    b: "list_all (\<lambda>c. \<exists>m q i. c = Some m \<and> asked t target q \<and> sendMessage e q i = Reply m)
          chans"
    by blast
  from b have "list_all (\<lambda>c. \<exists>m. c = Some m \<and> replyOf e t target m) chans"
    unfolding list_all_iff replyOf_def asked_def by blast
  with a show ?thesis by blast
qed

lemma take_alpha_Cons: "take alpha (n # ns) = n # take 2 ns"
  by (simp add: alpha_def numeral_3_eq_3 numeral_2_eq_2)

lemma iterateRound_progress:
  assumes fin: "finiteNetwork e N" and resp: "respondingPeers e" and inv: "iterInv target N st"
  shows "\<exists>r. iterateRound e t target st = Some r \<and>
           (\<forall>st'. r = Continue st' \<longrightarrow>
              iterInv target N st' \<and> contacted st \<subset> contacted st' \<and>
              contacted st' \<subseteq> contacted st \<union> N)"
proof -
  obtain qs c' where bq:
    "buildQueries t (Self (ht (dhtState st))) target (take alpha (sl st)) (contacted st) = (qs, c')"
    by (cases "buildQueries t (Self (ht (dhtState st))) target (take alpha (sl st)) (contacted st)")
  note bp = buildQueries_props [OF bq]
  from bp have qsq: "list_all (asked t target) qs" by simp
  from sendQueries_replies [OF qsq resp, of "dhtState st"] obtain chans d1 where
    sq: "sendQueries e qs (dhtState st) = Inr (chans, d1)" and
    ch: "list_all (\<lambda>c. \<exists>m. c = Some m \<and> replyOf e t target m) chans"
    by blast
  from awaitAll_delivers [OF ch] obtain results where
    aw: "awaitAll chans = Some results" and rs: "list_all (replyOf e t target) results"
    and re: "chans = [] \<longrightarrow> results = []"
    by blast
  have "\<And>m. replyOf e t target m \<Longrightarrow> NetworkNode.ID ` responseNodes m \<subseteq> N"
    using fin unfolding replyOf_def finiteNetwork_def by blast
  with rs have rn: "list_all (\<lambda>m. NetworkNode.ID ` responseNodes m \<subseteq> N) results"
    by (simp add: list_all_iff)
  from inv have ids: "NetworkNode.ID ` set (sl st) \<subseteq> N" and ne: "sl st \<noteq> []"
    by (simp_all add: iterInv_def)
  have sub: "c' \<subseteq> contacted st \<union> N"
  proof -
    have "set (take alpha (sl st)) \<subseteq> set (sl st)" by (rule set_take_subset)
    with ids bp show ?thesis by blast
  qed
  show ?thesis
  proof (cases "processResults e t results (sl st) d1")
    case (Inl p)
    with bq sq aw show ?thesis by (simp add: iterateRound_def)
  next
    case (Inr mg)
    show ?thesis
    proof (cases mg)
      case (Hit v d2)
      with Inr bq sq aw show ?thesis by (simp add: iterateRound_def)
    next
      case (Merged nodes d2)
      with Inr have pr: "processResults e t results (sl st) d1 = Inr (Merged nodes d2)" by simp
      from processResults_ids [OF pr rn ids] have nids: "NetworkNode.ID ` set nodes \<subseteq> N" .
      show ?thesis
      proof (cases "sortShortList target nodes")
        case Nil
        with pr bq sq aw show ?thesis by (simp add: iterateRound_def)
      next
        case (Cons n0 rest)
        show ?thesis
        proof (cases "NetworkNode.ID n0 = NetworkNode.ID (closestNode st)")
          case True
          with Cons pr bq sq aw show ?thesis by (simp add: iterateRound_def)
        next
          case False
          let ?st' = "\<lparr>sl = n0 # rest, contacted = c', closestNode = n0, dhtState = d2\<rparr>"
          from False Cons pr bq sq aw
          have r: "iterateRound e t target st = Some (Continue ?st')"
            by (simp add: iterateRound_def)
          have srt: "sorted (map (\<lambda>n. getDistance (NetworkNode.ID n) target) (n0 # rest))"
            using sorted_sortShortList [of target nodes] Cons by simp
          have "set (n0 # rest) = set nodes"
            using set_sortShortList [of target nodes] Cons by simp
          with nids have ids': "NetworkNode.ID ` set (n0 # rest) \<subseteq> N" by simp
          have inv': "iterInv target N ?st'"
            using srt ids' by (simp add: iterInv_def)
          have "qs \<noteq> []"
          proof
            assume e0: "qs = []"
            with sq have "chans = []" "d1 = dhtState st" by simp_all
            with re have "results = []" by simp
            with pr have nn: "nodes = sl st" by simp
            from inv have "contacted st = {} \<or>
               (sorted (map (\<lambda>n. getDistance (NetworkNode.ID n) target) (sl st)) \<and>
                NetworkNode.ID (closestNode st) = NetworkNode.ID (hd (sl st)))"
              by (simp add: iterInv_def)
            then show False
            proof
              assume c0: "contacted st = {}"
              from ne obtain a as where "sl st = a # as" by (cases "sl st") auto
              with bq c0 have "buildQueries t (Self (ht (dhtState st))) target (a # take 2 as) {} = (qs, c')"
                by (simp add: take_alpha_Cons)
              from buildQueries_first [OF this] e0 show False by simp
            next
              assume s0: "sorted (map (\<lambda>n. getDistance (NetworkNode.ID n) target) (sl st)) \<and>
                NetworkNode.ID (closestNode st) = NetworkNode.ID (hd (sl st))"
              then have "sortShortList target (sl st) = sl st"
                by (simp add: sortShortList_sorted_id)
              with Cons nn have "sl st = n0 # rest" by simp
              with s0 False show False by simp
            qed
          qed
          with bp have "contacted st \<subset> c'" by blast
          with r inv' sub show ?thesis by simp
        qed
      qed
    qed
  qed
qed


lemma iterateLoop_terminates:
  assumes fin: "finiteNetwork e N" and resp: "respondingPeers e"
  shows "iterInv target N st \<Longrightarrow>
           \<exists>r. iterateLoop e t target st = Some r \<and> (\<forall>st'. r \<noteq> Continue st')"
proof (induction "card (N - contacted st)" arbitrary: st rule: less_induct)
  case less
  from iterateRound_progress [OF fin resp less.prems, of t] obtain r where
    r: "iterateRound e t target st = Some r" and
    c: "\<forall>st'. r = Continue st' \<longrightarrow>
              iterInv target N st' \<and> contacted st \<subset> contacted st' \<and>
              contacted st' \<subseteq> contacted st \<union> N"
    by blast
  show ?case
  proof (cases "\<exists>st'. r = Continue st'")
    case False
    with r have "iterateLoop e t target st = Some r"
      by (subst iterateLoop.simps) (cases r; simp)
    with False show ?thesis by simp
  next
    case True
    then obtain st' where st': "r = Continue st'" by blast
    with c have inv': "iterInv target N st'" and grow: "contacted st \<subset> contacted st'"
      and bound: "contacted st' \<subseteq> contacted st \<union> N"
      by simp_all
    from fin have fN: "finite N" by (simp add: finiteNetwork_def)
    from grow bound have "N - contacted st' \<subset> N - contacted st" by blast
    with fN have "card (N - contacted st') < card (N - contacted st)"
      by (intro psubset_card_mono) simp_all
    from less.hyps [OF this inv'] obtain r' where
      "iterateLoop e t target st' = Some r'" "\<forall>st''. r' \<noteq> Continue st''"
      by blast
    moreover from r st' have "iterateLoop e t target st = iterateLoop e t target st'"
      by (subst iterateLoop.simps) simp
    ultimately show ?thesis by simp
  qed
qed

definition tableInRange :: "env \<Rightarrow> nat \<Rightarrow> bool" where
  "tableInRange e L =
     ((\<forall>a b. 0 \<le> getBucketIndexFromDifferingBit e a b \<and>
             getBucketIndexFromDifferingBit e a b < int L) \<and>
      (\<forall>h i. length (RoutingTable (removeNode e h i)) = length (RoutingTable h)))"

definition wellFormedReply :: "iterateType \<Rightarrow> bytes set \<Rightarrow> message \<Rightarrow> bool" where
  "wellFormedReply t N m =
     (case Error m of
        None \<Rightarrow>
          (case t of
             iterateFindValue \<Rightarrow>
               (case Data m of responseDataFindValue closest v \<Rightarrow> True | _ \<Rightarrow> False)
           | _ \<Rightarrow>
               (case Data m of responseDataFindNode closest \<Rightarrow> True | _ \<Rightarrow> False))
      | Some err \<Rightarrow>
          (case Receiver m of None \<Rightarrow> False | Some r \<Rightarrow> NetworkNode.ID r \<notin> N))"

text \<open>The replies to the queries that a lookup of kind \<open>t\<close> for \<open>target\<close> asks are well
  formed: a network whose peers answer a FindNode query with a FindNode payload and a
  FindValue query with a FindValue payload, without error, has well-formed replies for every
  kind of lookup.\<close>

definition wellFormedReplies :: "env \<Rightarrow> iterateType \<Rightarrow> bytes \<Rightarrow> bytes set \<Rightarrow> bool" where
  "wellFormedReplies e t target N =
     (\<forall>self n i m. sendMessage e (mkQuery t self n target) i = Reply m \<longrightarrow>
                     wellFormedReply t N m)"

lemma addNode_returns:
  assumes "tableInRange e L" and "length (RoutingTable (ht d)) = L"
  shows "\<exists>d'. addNode e d nd = Inr d' \<and> length (RoutingTable (ht d')) = L"
proof -
  define index where
    "index = getBucketIndexFromDifferingBit e (NetworkNode.ID (Self (ht d))) (NetworkNode.ID nd)"
  from assms(1) have "0 \<le> index \<and> index < int L"
    unfolding index_def tableInRange_def by blast
  with assms(2) have r: "\<not> (index < 0 \<or> int (length (RoutingTable (ht d))) \<le> index)"
    by simp
  define bucket where "bucket = RoutingTable (ht d) ! nat index"
  have "length bucket = k \<Longrightarrow> bucket \<noteq> []" by (auto simp: k_def)
  with r assms(2) show ?thesis
    unfolding addNode_def index_def [symmetric] Let_def bucket_def [symmetric]
    by (cases bucket; cases "sendMessage e (pingQuery (Self (ht d)) (hd bucket)) (msgCounter d)")
       auto
qed

lemma addNodes_returns:
  assumes "tableInRange e L"
  shows "length (RoutingTable (ht d)) = L \<Longrightarrow>
           \<exists>d'. addNodes e ns d = Inr d' \<and> length (RoutingTable (ht d')) = L"
proof (induction ns arbitrary: d)
  case Nil
  then show ?case by simp
next
  case (Cons n ns)
  from addNode_returns [OF assms Cons.prems, of "newNode n"] obtain d1 where
    a: "addNode e d (newNode n) = Inr d1" and l: "length (RoutingTable (ht d1)) = L" by blast
  from Cons.IH [OF l] a show ?case by simp
qed

lemma sendQueries_table:
  assumes "tableInRange e L"
  shows "sendQueries e qs d = Inr (chans, d1) \<Longrightarrow>
           length (RoutingTable (ht d)) = L \<Longrightarrow> length (RoutingTable (ht d1)) = L"
proof (induction qs arbitrary: d chans)
  case Nil
  then show ?case by simp
next
  case (Cons q qs)
  have a: "length (RoutingTable (ht (send d q True))) = L" using Cons.prems(2) by simp
  have b: "\<And>r. length (RoutingTable (ht ((send d q True)
              \<lparr>ht := removeNode e (ht d) (NetworkNode.ID r)\<rparr>))) = L"
    using assms Cons.prems(2) by (simp add: tableInRange_def)
  from Cons.prems(1) show ?case
    by (auto simp: Let_def split: sendOutcome.splits if_splits option.splits sum.splits
             dest: Cons.IH [OF _ a] Cons.IH [OF _ b])
qed




text \<open>The rule for the outer loop: an invariant of the rounds holds in the round that ends it.\<close>

lemma iterateLoop_invariant:
  assumes run: "iterateLoop e t target st = Some r"
    and init: "I st"
    and step: "\<And>s s'. I s \<Longrightarrow> iterateRound e t target s = Some (Continue s') \<Longrightarrow> I s'"
  shows "\<exists>s. I s \<and> iterateRound e t target s = Some r \<and> (\<forall>s'. r \<noteq> Continue s')"
proof -
  define P where "P = (\<lambda>e' t' target' s y.
     e' = e \<longrightarrow> t' = t \<longrightarrow> target' = target \<longrightarrow> I s \<longrightarrow>
     (\<exists>s0. I s0 \<and> iterateRound e t target s0 = Some y \<and> (\<forall>s'. y \<noteq> Continue s')))"
  have "P e t target st r"
  proof (rule iterateLoop.raw_induct [where P = P, OF _ run])
    fix f e' t' target' s y
    assume IH: "\<And>t target st b y. f t target st b = Some y \<Longrightarrow> P t target st b y"
      and eq: "(case iterateRound e' t' target' s of None \<Rightarrow> None
                | Some r \<Rightarrow> (case r of Continue st' \<Rightarrow> f e' t' target' st' | _ \<Rightarrow> Some r)) = Some y"
    show "P e' t' target' s y"
      unfolding P_def
    proof (intro impI)
      assume a: "e' = e" "t' = t" "target' = target" and i: "I s"
      from eq a obtain r0 where r0: "iterateRound e t target s = Some r0"
        by (cases "iterateRound e t target s") auto
      show "\<exists>s0. I s0 \<and> iterateRound e t target s0 = Some y \<and> (\<forall>s'. y \<noteq> Continue s')"
      proof (cases "\<exists>s'. r0 = Continue s'")
        case True
        then obtain s' where s': "r0 = Continue s'" by blast
        with eq a r0 have "f e t target s' = Some y" by simp
        from IH [OF this] step [OF i] r0 s' show ?thesis by (simp add: P_def)
      next
        case False
        with eq a r0 have "y = r0" by (cases r0) auto
        with False i r0 show ?thesis by auto
      qed
    qed
  qed
  with init show ?thesis by (simp add: P_def)
qed

lemma processResults_returns:
  assumes tab: "tableInRange e L"
  shows "list_all (wellFormedReply t N) results \<Longrightarrow>
         list_all (\<lambda>m. NetworkNode.ID ` responseNodes m \<subseteq> N) results \<Longrightarrow>
         NetworkNode.ID ` set nodes \<subseteq> N \<Longrightarrow> nodes \<noteq> [] \<Longrightarrow>
         length (RoutingTable (ht d)) = L \<Longrightarrow>
         (\<exists>v d2. processResults e t results nodes d = Inr (Hit v d2) \<and> t = iterateFindValue) \<or>
         (\<exists>nodes' d2. processResults e t results nodes d = Inr (Merged nodes' d2) \<and>
                      nodes' \<noteq> [] \<and> length (RoutingTable (ht d2)) = L)"
proof (induction results arbitrary: nodes d)
  case Nil
  then show ?case by simp
next
  case (Cons m results)
  from Cons.prems have wf: "wellFormedReply t N m"
    and wfs: "list_all (wellFormedReply t N) results"
    and rn: "NetworkNode.ID ` responseNodes m \<subseteq> N"
    and rns: "list_all (\<lambda>m. NetworkNode.ID ` responseNodes m \<subseteq> N) results"
    by simp_all
  show ?case
  proof (cases "Error m")
    case (Some err)
    with wf obtain r where r: "Receiver m = Some r" "NetworkNode.ID r \<notin> N"
      by (auto simp: wellFormedReply_def split: option.splits)
    with Cons.prems(3) have "RemoveNode nodes r = nodes"
      by (intro RemoveNode_stranger) blast
    with Some r Cons.IH [OF wfs rns Cons.prems(3) Cons.prems(4) Cons.prems(5)]
    show ?thesis by simp
  next
    case None
    have merge: "\<And>closest. set closest = responseNodes m \<Longrightarrow>
       \<exists>d'. addNodes e closest d = Inr d' \<and>
         ((\<exists>v d2. processResults e t results (AppendUniqueNetworkNodes nodes closest) d' =
                    Inr (Hit v d2) \<and> t = iterateFindValue) \<or>
          (\<exists>nodes' d2. processResults e t results (AppendUniqueNetworkNodes nodes closest) d' =
                    Inr (Merged nodes' d2) \<and>
                    nodes' \<noteq> [] \<and> length (RoutingTable (ht d2)) = L))"
    proof -
      fix closest assume c: "set closest = responseNodes m"
      from addNodes_returns [OF tab Cons.prems(5), of closest] obtain d' where
        a: "addNodes e closest d = Inr d'" and l: "length (RoutingTable (ht d')) = L" by blast
      from c rn Cons.prems(3) set_AppendUnique [of nodes closest]
      have i: "NetworkNode.ID ` set (AppendUniqueNetworkNodes nodes closest) \<subseteq> N" by blast
      from AppendUnique_prefix [of nodes closest] Cons.prems(4)
      have n: "AppendUniqueNetworkNodes nodes closest \<noteq> []" by auto
      from Cons.IH [OF wfs rns i n l] a show
        "\<exists>d'. addNodes e closest d = Inr d' \<and>
         ((\<exists>v d2. processResults e t results (AppendUniqueNetworkNodes nodes closest) d' =
                    Inr (Hit v d2) \<and> t = iterateFindValue) \<or>
          (\<exists>nodes' d2. processResults e t results (AppendUniqueNetworkNodes nodes closest) d' =
                    Inr (Merged nodes' d2) \<and>
                    nodes' \<noteq> [] \<and> length (RoutingTable (ht d2)) = L))"
        by blast
    qed
    show ?thesis
    proof (cases t)
      case iterateFindValue
      with wf None obtain closest v where dt: "Data m = responseDataFindValue closest v"
        by (auto simp: wellFormedReply_def split: payload.splits)
      then have "set closest = responseNodes m" by (simp add: responseNodes_def)
      from merge [OF this] None dt iterateFindValue show ?thesis
        by (cases v) auto
    next
      case iterateStore
      with wf None obtain closest where dt: "Data m = responseDataFindNode closest"
        by (auto simp: wellFormedReply_def split: payload.splits)
      then have "set closest = responseNodes m" by (simp add: responseNodes_def)
      from merge [OF this] None dt iterateStore show ?thesis by auto
    next
      case iterateFindNode
      with wf None obtain closest where dt: "Data m = responseDataFindNode closest"
        by (auto simp: wellFormedReply_def split: payload.splits)
      then have "set closest = responseNodes m" by (simp add: responseNodes_def)
      from merge [OF this] None dt iterateFindNode show ?thesis by auto
    qed
  qed
qed


lemma sortShortList_Nil_iff [simp]: "sortShortList target nodes = [] \<longleftrightarrow> nodes = []"
proof -
  have "set (sortShortList target nodes) = set nodes" by simp
  then show ?thesis by (metis set_empty)
qed

lemma iterateRound_returns:
  assumes fin: "finiteNetwork e N" and resp: "respondingPeers e"
    and tab: "tableInRange e L" and wf: "wellFormedReplies e t target N"
    and inv: "iterInv target N st" and len: "length (RoutingTable (ht (dhtState st))) = L"
  shows "\<exists>r. iterateRound e t target st = Some r \<and> (\<forall>p. r \<noteq> Panic p) \<and>
           (\<forall>v d2. r = Found v d2 \<longrightarrow> t = iterateFindValue) \<and>
           (\<forall>st'. r = Continue st' \<longrightarrow> length (RoutingTable (ht (dhtState st'))) = L)"
proof -
  obtain qs c' where bq:
    "buildQueries t (Self (ht (dhtState st))) target (take alpha (sl st)) (contacted st) = (qs, c')"
    by (cases "buildQueries t (Self (ht (dhtState st))) target (take alpha (sl st)) (contacted st)")
  from buildQueries_props [OF bq] have qsq: "list_all (asked t target) qs" by simp
  from sendQueries_replies [OF qsq resp, of "dhtState st"] obtain chans d1 where
    sq: "sendQueries e qs (dhtState st) = Inr (chans, d1)" and
    ch: "list_all (\<lambda>c. \<exists>m. c = Some m \<and> replyOf e t target m) chans"
    by blast
  from sendQueries_table [OF tab sq len] have len1: "length (RoutingTable (ht d1)) = L" .
  from awaitAll_delivers [OF ch] obtain results where
    aw: "awaitAll chans = Some results" and rs: "list_all (replyOf e t target) results"
    by blast
  have "\<And>m. replyOf e t target m \<Longrightarrow> NetworkNode.ID ` responseNodes m \<subseteq> N"
    using fin unfolding replyOf_def finiteNetwork_def by blast
  with rs have rn: "list_all (\<lambda>m. NetworkNode.ID ` responseNodes m \<subseteq> N) results"
    by (simp add: list_all_iff)
  have "\<And>m. replyOf e t target m \<Longrightarrow> wellFormedReply t N m"
    using wf unfolding replyOf_def wellFormedReplies_def by blast
  with rs have rw: "list_all (wellFormedReply t N) results"
    by (simp add: list_all_iff)
  from inv have ids: "NetworkNode.ID ` set (sl st) \<subseteq> N" and ne: "sl st \<noteq> []"
    by (simp_all add: iterInv_def)
  from processResults_returns [OF tab rw rn ids ne len1]
  show ?thesis
  proof
    assume "\<exists>v d2. processResults e t results (sl st) d1 = Inr (Hit v d2) \<and> t = iterateFindValue"
    with bq sq aw show ?thesis by (auto simp: iterateRound_def)
  next
    assume "\<exists>nodes' d2. processResults e t results (sl st) d1 = Inr (Merged nodes' d2) \<and>
                      nodes' \<noteq> [] \<and> length (RoutingTable (ht d2)) = L"
    then obtain nodes' d2 where pr: "processResults e t results (sl st) d1 = Inr (Merged nodes' d2)"
      and nn: "nodes' \<noteq> []" and l2: "length (RoutingTable (ht d2)) = L" by blast
    from nn obtain n0 rest where "sortShortList target nodes' = n0 # rest"
      by (cases "sortShortList target nodes'") auto
    with bq sq aw pr l2 show ?thesis by (simp add: iterateRound_def)
  qed
qed

lemma iterateLoop_returns:
  assumes fin: "finiteNetwork e N" and resp: "respondingPeers e"
    and tab: "tableInRange e L" and wf: "wellFormedReplies e t target N"
    and inv: "iterInv target N st" and len: "length (RoutingTable (ht (dhtState st))) = L"
  shows "\<exists>r. iterateLoop e t target st = Some r \<and> (\<forall>p. r \<noteq> Panic p) \<and>
           (\<forall>st'. r \<noteq> Continue st') \<and> (\<forall>v d2. r = Found v d2 \<longrightarrow> t = iterateFindValue)"
proof -
  from iterateLoop_terminates [OF fin resp inv] obtain r where
    run: "iterateLoop e t target st = Some r" by blast
  define I where "I = (\<lambda>s. iterInv target N s \<and> length (RoutingTable (ht (dhtState s))) = L)"
  have init: "I st" using inv len by (simp add: I_def)
  have step: "I s'" if i: "I s" and c: "iterateRound e t target s = Some (Continue s')" for s s'
  proof -
    from i have a: "iterInv target N s" and b: "length (RoutingTable (ht (dhtState s))) = L"
      by (simp_all add: I_def)
    from iterateRound_progress [OF fin resp a, of t] obtain r1 where
      "iterateRound e t target s = Some r1"
      "\<forall>st'. r1 = Continue st' \<longrightarrow> iterInv target N st' \<and> contacted s \<subset> contacted st' \<and>
              contacted st' \<subseteq> contacted s \<union> N" by blast
    with c have x: "iterInv target N s'" by simp
    from iterateRound_returns [OF fin resp tab wf a b] obtain r2 where
      "iterateRound e t target s = Some r2"
      "\<forall>st'. r2 = Continue st' \<longrightarrow> length (RoutingTable (ht (dhtState st'))) = L" by blast
    with c have y: "length (RoutingTable (ht (dhtState s'))) = L" by simp
    from x y show "I s'" by (simp add: I_def)
  qed
  have "\<exists>s. I s \<and> iterateRound e t target s = Some r \<and> (\<forall>s'. r \<noteq> Continue s')"
    using run init step by (rule iterateLoop_invariant)
  then obtain s where
    s: "I s" "iterateRound e t target s = Some r" "\<forall>s'. r \<noteq> Continue s'" by blast
  from s(1) have a: "iterInv target N s" and b: "length (RoutingTable (ht (dhtState s))) = L"
    by (simp_all add: I_def)
  from iterateRound_returns [OF fin resp tab wf a b] obtain r3 where
    r3: "iterateRound e t target s = Some r3" "\<forall>p. r3 \<noteq> Panic p"
      "\<forall>v d2. r3 = Found v d2 \<longrightarrow> t = iterateFindValue" by blast
  from r3(1) s(2) have "r3 = r" by simp
  with r3 s(3) run show ?thesis by blast
qed

lemma iterate_total:
  assumes fin: "finiteNetwork e N" and resp: "respondingPeers e"
    and seed: "NetworkNode.ID ` set (getClosestContacts e (ht d) alpha target []) \<subseteq> N"
  shows "\<exists>r. iterate e t target dat d = Some r"
proof (cases "getClosestContacts e (ht d) alpha target []")
  case Nil
  then show ?thesis by (simp add: iterate_def)
next
  case (Cons n0 rest)
  let ?st = "\<lparr>sl = n0 # rest, contacted = {}, closestNode = n0, dhtState = d\<rparr>"
  from seed Cons have "iterInv target N ?st" by (simp add: iterInv_def)
  from iterateLoop_terminates [OF fin resp this, of t] obtain r where
    "iterateLoop e t target ?st = Some r" "\<forall>st'. r \<noteq> Continue st'" by blast
  with Cons show ?thesis
    by (cases r; cases t) (simp_all add: iterate_def)
qed

lemma iterate_returns:
  assumes fin: "finiteNetwork e N" and resp: "respondingPeers e"
    and seed: "NetworkNode.ID ` set (getClosestContacts e (ht d) alpha target []) \<subseteq> N"
    and tab: "tableInRange e (length (RoutingTable (ht d)))" and wf: "wellFormedReplies e t target N"
  shows "\<exists>v closest d'. iterate e t target dat d = Some (Inr (v, closest, d')) \<and>
           (t = iterateStore \<longrightarrow> v = None \<and> closest = None)"
proof (cases "getClosestContacts e (ht d) alpha target []")
  case Nil
  then show ?thesis by (simp add: iterate_def)
next
  case (Cons n0 rest)
  let ?st = "\<lparr>sl = n0 # rest, contacted = {}, closestNode = n0, dhtState = d\<rparr>"
  from seed Cons have i: "iterInv target N ?st" by (simp add: iterInv_def)
  have l: "length (RoutingTable (ht (dhtState ?st))) = length (RoutingTable (ht d))" by simp
  from iterateLoop_returns [OF fin resp tab wf i l] obtain r where
    "iterateLoop e t target ?st = Some r" "\<forall>p. r \<noteq> Panic p" "\<forall>st'. r \<noteq> Continue st'"
    "\<forall>v d2. r = Found v d2 \<longrightarrow> t = iterateFindValue" by blast
  with Cons show ?thesis
    by (cases r; cases t) (simp_all add: iterate_def)
qed

lemma iterateRound_nonempty:
  "iterateRound e t target st = Some (Converged nodes d1) \<Longrightarrow> nodes \<noteq> []"
  by (auto simp: iterateRound_def split: prod.splits sum.splits option.splits merged.splits
        list.splits if_splits)

lemma iterateLoop_nonempty:
  assumes "iterateLoop e t target st = Some r"
  shows "r = Converged nodes d1 \<Longrightarrow> nodes \<noteq> []"
proof -
  have "\<exists>s. True \<and> iterateRound e t target s = Some r \<and> (\<forall>s'. r \<noteq> Continue s')"
    using assms by (rule iterateLoop_invariant) simp_all
  then show "r = Converged nodes d1 \<Longrightarrow> nodes \<noteq> []"
    by (auto dest: iterateRound_nonempty)
qed

subsection \<open>The small network is finite, responds and is well formed\<close>

definition demoPeers :: "bytes set" where
  "demoPeers = {[9], [5], [6]}"

definition demoStart :: DHT where
  "demoStart = demoDHT [[], [], [], [mkNode 9], [], [], [], []]"

lemma demo_finite: "finiteNetwork demoEnv demoPeers"
  by (auto simp: finiteNetwork_def demoEnv_def demoSend_def demoResponse_def responseNodes_def
        demoPeers_def mkNode_def split: option.splits if_splits)

lemma demo_responding: "respondingPeers demoEnv"
  by (auto simp: respondingPeers_def isQuery_def demoEnv_def demoSend_def split: option.splits)

lemma demo_table: "tableInRange demoEnv 8"
  by (simp add: tableInRange_def demoEnv_def demoBucketIndex_def Let_def)

lemma demo_table_start: "tableInRange demoEnv (length (RoutingTable (ht demoStart)))"
proof -
  have "length (RoutingTable (ht demoStart)) = 8" by (simp add: demoStart_def demoDHT_def)
  with demo_table show ?thesis by simp
qed

lemma demo_wellFormed: "wellFormedReplies demoEnv t target demoPeers"
  by (cases t)
     (auto simp: wellFormedReplies_def wellFormedReply_def mkQuery_def demoEnv_def demoSend_def
        demoResponse_def split: if_splits)

lemma demo_seed:
  "getClosestContacts demoEnv (ht demoStart) alpha [7] [] = [mkNode 9]"
  by (simp add: demoEnv_def demoStart_def demoDHT_def sortShortList_def alpha_def)

subsection \<open>A run of the small network\<close>

definition demoConverged :: DHT where
  "demoConverged =
     \<lparr>ht = \<lparr>Self = mkNode 0,
             RoutingTable = [[], [], [mkNode 6, mkNode 5], [mkNode 9], [], [], [], []]\<rparr>,
      store = MemoryStore_Init, msgCounter = 3,
      networking =
        [(mkQuery iterateStore (mkNode 0) (mkNode 9) [7], 0, True),
         (mkQuery iterateStore (mkNode 0) (mkNode 6) [7], 1, True),
         (mkQuery iterateStore (mkNode 0) (mkNode 5) [7], 2, True)]\<rparr>"

lemma demo_round1:
  "iterateRound demoEnv iterateStore [7]
     \<lparr>sl = [mkNode 9], contacted = {}, closestNode = mkNode 9, dhtState = demoStart\<rparr> =
   Some (Continue
     \<lparr>sl = [mkNode 6, mkNode 5, mkNode 9], contacted = {[9]}, closestNode = mkNode 6,
      dhtState =
        \<lparr>ht = \<lparr>Self = mkNode 0,
               RoutingTable = [[], [], [mkNode 6, mkNode 5], [mkNode 9], [], [], [], []]\<rparr>,
         store = MemoryStore_Init, msgCounter = 1,
         networking = [(mkQuery iterateStore (mkNode 0) (mkNode 9) [7], 0, True)]\<rparr>\<rparr>)"
  by (simp add: iterateRound_def alpha_def demoStart_def demo_defs mkQuery_def addNode_def
        newNode_def sortShortList_def Let_def)

lemma demo_round2:
  "iterateRound demoEnv iterateStore [7]
     \<lparr>sl = [mkNode 6, mkNode 5, mkNode 9], contacted = {[9]}, closestNode = mkNode 6,
      dhtState =
        \<lparr>ht = \<lparr>Self = mkNode 0,
               RoutingTable = [[], [], [mkNode 6, mkNode 5], [mkNode 9], [], [], [], []]\<rparr>,
         store = MemoryStore_Init, msgCounter = 1,
         networking = [(mkQuery iterateStore (mkNode 0) (mkNode 9) [7], 0, True)]\<rparr>\<rparr> =
   Some (Converged [mkNode 6, mkNode 5, mkNode 9] demoConverged)"
  by (simp add: iterateRound_def alpha_def demoConverged_def demo_defs mkQuery_def addNode_def
        newNode_def sortShortList_def Let_def)

lemma demo_loop:
  "iterateLoop demoEnv iterateStore [7]
     \<lparr>sl = [mkNode 9], contacted = {}, closestNode = mkNode 9, dhtState = demoStart\<rparr> =
   Some (Converged [mkNode 6, mkNode 5, mkNode 9] demoConverged)"
proof -
  have "iterateLoop demoEnv iterateStore [7]
     \<lparr>sl = [mkNode 9], contacted = {}, closestNode = mkNode 9, dhtState = demoStart\<rparr> =
    iterateLoop demoEnv iterateStore [7]
     \<lparr>sl = [mkNode 6, mkNode 5, mkNode 9], contacted = {[9]}, closestNode = mkNode 6,
      dhtState =
        \<lparr>ht = \<lparr>Self = mkNode 0,
               RoutingTable = [[], [], [mkNode 6, mkNode 5], [mkNode 9], [], [], [], []]\<rparr>,
         store = MemoryStore_Init, msgCounter = 1,
         networking = [(mkQuery iterateStore (mkNode 0) (mkNode 9) [7], 0, True)]\<rparr>\<rparr>"
    by (subst iterateLoop.simps, subst demo_round1) simp
  also have "\<dots> = Some (Converged [mkNode 6, mkNode 5, mkNode 9] demoConverged)"
    by (subst iterateLoop.simps, subst demo_round2) simp
  finally show ?thesis .
qed

text \<open>The same lookup for a value: the first round learns of the peers \<open>6\<close> and \<open>5\<close> from
  the peer \<open>9\<close>, the second asks both, and the answer of \<open>5\<close> carries the value.\<close>

definition demoFound :: DHT where
  "demoFound =
     \<lparr>ht = \<lparr>Self = mkNode 0,
             RoutingTable = [[], [], [mkNode 6, mkNode 5], [mkNode 9], [], [], [], []]\<rparr>,
      store = MemoryStore_Init, msgCounter = 3,
      networking =
        [(mkQuery iterateFindValue (mkNode 0) (mkNode 9) [7], 0, True),
         (mkQuery iterateFindValue (mkNode 0) (mkNode 6) [7], 1, True),
         (mkQuery iterateFindValue (mkNode 0) (mkNode 5) [7], 2, True)]\<rparr>"

lemma demo_value_round1:
  "iterateRound demoEnv iterateFindValue [7]
     \<lparr>sl = [mkNode 9], contacted = {}, closestNode = mkNode 9, dhtState = demoStart\<rparr> =
   Some (Continue
     \<lparr>sl = [mkNode 6, mkNode 5, mkNode 9], contacted = {[9]}, closestNode = mkNode 6,
      dhtState =
        \<lparr>ht = \<lparr>Self = mkNode 0,
               RoutingTable = [[], [], [mkNode 6, mkNode 5], [mkNode 9], [], [], [], []]\<rparr>,
         store = MemoryStore_Init, msgCounter = 1,
         networking = [(mkQuery iterateFindValue (mkNode 0) (mkNode 9) [7], 0, True)]\<rparr>\<rparr>)"
  by (simp add: iterateRound_def alpha_def demoStart_def demo_defs mkQuery_def addNode_def
        newNode_def sortShortList_def Let_def)

lemma demo_value_round2:
  "iterateRound demoEnv iterateFindValue [7]
     \<lparr>sl = [mkNode 6, mkNode 5, mkNode 9], contacted = {[9]}, closestNode = mkNode 6,
      dhtState =
        \<lparr>ht = \<lparr>Self = mkNode 0,
               RoutingTable = [[], [], [mkNode 6, mkNode 5], [mkNode 9], [], [], [], []]\<rparr>,
         store = MemoryStore_Init, msgCounter = 1,
         networking = [(mkQuery iterateFindValue (mkNode 0) (mkNode 9) [7], 0, True)]\<rparr>\<rparr> =
   Some (Found [42] demoFound)"
  by (simp add: iterateRound_def alpha_def demoFound_def demo_defs mkQuery_def addNode_def
        newNode_def sortShortList_def Let_def)

lemma demo_value_run:
  "iterate demoEnv iterateFindValue [7] [] demoStart = Some (Inr (Some [42], None, demoFound))"
proof -
  have "iterateLoop demoEnv iterateFindValue [7]
     \<lparr>sl = [mkNode 9], contacted = {}, closestNode = mkNode 9, dhtState = demoStart\<rparr> =
    iterateLoop demoEnv iterateFindValue [7]
     \<lparr>sl = [mkNode 6, mkNode 5, mkNode 9], contacted = {[9]}, closestNode = mkNode 6,
      dhtState =
        \<lparr>ht = \<lparr>Self = mkNode 0,
               RoutingTable = [[], [], [mkNode 6, mkNode 5], [mkNode 9], [], [], [], []]\<rparr>,
         store = MemoryStore_Init, msgCounter = 1,
         networking = [(mkQuery iterateFindValue (mkNode 0) (mkNode 9) [7], 0, True)]\<rparr>\<rparr>"
    by (subst iterateLoop.simps, subst demo_value_round1) simp
  also have "\<dots> = Some (Found [42] demoFound)"
    by (subst iterateLoop.simps, subst demo_value_round2) simp
  finally show ?thesis
    unfolding iterate_def demo_seed list.case by simp
qed

subsection \<open>A network whose only peer refuses\<close>

text \<open>
  The peer answers every query by sending the envelope of the query back, without the
  payload, marked as a response and with an error: the receiver named in that message is the
  peer itself. It names no node, and it answers, so the network is finite and its peers
  respond; the bucket index is that of the small network and stays inside the routing table.
\<close>

definition echoSend :: "message \<Rightarrow> 64 word \<Rightarrow> sendOutcome" where
  "echoSend q i = Reply (q\<lparr>IsResponse := True, Error := Some ''refused'', Data := noData\<rparr>)"

definition echoEnv :: env where
  "echoEnv = demoEnv\<lparr>sendMessage := echoSend\<rparr>"

lemma echo_finite: "finiteNetwork echoEnv demoPeers"
proof -
  have "responseNodes m = {}" if "sendMessage echoEnv q i = Reply m" for q i m
    using that by (auto simp: echoEnv_def echoSend_def responseNodes_def)
  moreover have "finite demoPeers" by (simp add: demoPeers_def)
  ultimately show ?thesis by (simp add: finiteNetwork_def)
qed

lemma echo_responding: "respondingPeers echoEnv"
  by (simp add: respondingPeers_def echoEnv_def echoSend_def)

lemma echo_seed: "getClosestContacts echoEnv (ht demoStart) alpha [7] [] = [mkNode 9]"
  by (simp add: echoEnv_def demoEnv_def demoStart_def demoDHT_def sortShortList_def alpha_def)

lemma echo_round:
  "iterateRound echoEnv iterateStore [7]
     \<lparr>sl = [mkNode 9], contacted = {}, closestNode = mkNode 9, dhtState = demoStart\<rparr> =
   Some (Panic IndexOutOfRange)"
  by (simp add: iterateRound_def alpha_def demoStart_def demo_defs mkQuery_def echoEnv_def
        echoSend_def RemoveNode_def sortShortList_def Let_def)




section \<open>What iterate sends\<close>

definition sentOnly :: "(message \<Rightarrow> bool) \<Rightarrow> DHT \<Rightarrow> DHT \<Rightarrow> bool" where
  "sentOnly P d d' =
     (store d' = store d \<and>
      (\<exists>new. networking d' = networking d @ new \<and> list_all (\<lambda>x. P (fst x)) new))"

lemma sentOnly_refl [simp]: "sentOnly P d d"
  by (simp add: sentOnly_def)

lemma sentOnly_trans: "sentOnly P a b \<Longrightarrow> sentOnly P b c \<Longrightarrow> sentOnly P a c"
  by (auto simp: sentOnly_def)

lemma sentOnly_mono: "sentOnly P a b \<Longrightarrow> (\<And>m. P m \<Longrightarrow> Q m) \<Longrightarrow> sentOnly Q a b"
  by (auto simp: sentOnly_def list_all_iff)

lemma sentOnly_send: "P msg \<Longrightarrow> sentOnly P d (send d msg x)"
  by (simp add: sentOnly_def send_def)

lemma sentOnly_ht: "sentOnly P d d' \<Longrightarrow> sentOnly P d (d'\<lparr>ht := h\<rparr>)"
  by (simp add: sentOnly_def)

lemma sentOnly_setBucket: "sentOnly P d d' \<Longrightarrow> sentOnly P d (setBucket d' i b)"
  by (simp add: sentOnly_def setBucket_def)

definition pingNotTo :: "NetworkNode \<Rightarrow> message \<Rightarrow> bool" where
  "pingNotTo nd m =
     (Type m = messageTypeQueryPing \<and> \<not> IsResponse m \<and>
      (\<forall>r. Receiver m = Some r \<longrightarrow> NetworkNode.ID r \<noteq> NetworkNode.ID nd))"

definition notStore :: "message \<Rightarrow> bool" where
  "notStore m = (Type m \<noteq> messageTypeQueryStore)"

lemma addNode_sentOnly:
  assumes "addNode e d nd = Inr d'"
  shows "sentOnly (pingNotTo nd) d d'"
proof -
  define bucket where "bucket = RoutingTable (ht d) !
     nat (getBucketIndexFromDifferingBit e (NetworkNode.ID (Self (ht d))) (NetworkNode.ID nd))"
  note c = addNode_cases [OF assms refl bucket_def]
  have p: "pingNotTo nd (pingQuery (Self (ht d)) (hd bucket))"
    if "\<not> list_ex (\<lambda>v. NetworkNode.ID v = NetworkNode.ID nd) bucket" and "length bucket = k"
  proof -
    from that(2) have "bucket \<noteq> []" by (auto simp: k_def)
    then have "hd bucket \<in> set bucket" by simp
    with that(1) show ?thesis by (auto simp: pingNotTo_def pingQuery_def list_ex_iff)
  qed
  show ?thesis
  proof (cases "list_ex (\<lambda>v. NetworkNode.ID v = NetworkNode.ID nd) bucket")
    case True
    with c show ?thesis by simp
  next
    case False
    show ?thesis
    proof (cases "length bucket = k")
      case True
      from p [OF False True]
      have s: "sentOnly (pingNotTo nd) d (send d (pingQuery (Self (ht d)) (hd bucket)) True)"
        by (rule sentOnly_send)
      from c False True s sentOnly_setBucket [OF s] show ?thesis
        by (auto split: sendOutcome.splits)
    next
      case False2: False
      with c False show ?thesis by (simp add: sentOnly_setBucket)
    qed
  qed
qed

lemma addNodes_sentOnly:
  "addNodes e ns d = Inr d' \<Longrightarrow> sentOnly notStore d d'"
proof (induction ns arbitrary: d)
  case Nil
  then show ?case by simp
next
  case (Cons n ns)
  then obtain d1 where a: "addNode e d (newNode n) = Inr d1" and b: "addNodes e ns d1 = Inr d'"
    by (auto split: sum.splits)
  from addNode_sentOnly [OF a] have "sentOnly notStore d d1"
    by (rule sentOnly_mono) (simp add: pingNotTo_def notStore_def)
  with Cons.IH [OF b] show ?case by (blast intro: sentOnly_trans)
qed

lemma isQuery_notStore: "isQuery q \<Longrightarrow> notStore q"
  by (auto simp: isQuery_def notStore_def)

lemma sendQueries_sentOnly:
  "list_all isQuery qs \<Longrightarrow> sendQueries e qs d = Inr (chans, d1) \<Longrightarrow> sentOnly notStore d d1"
proof (induction qs arbitrary: d chans)
  case Nil
  then show ?case by simp
next
  case (Cons q qs)
  then have q: "notStore q" and qs: "list_all isQuery qs" by (simp_all add: isQuery_notStore)
  have a: "sentOnly notStore d (send d q True)" using q by (rule sentOnly_send)
  have b: "\<And>h. sentOnly notStore d ((send d q True)\<lparr>ht := h\<rparr>)" using a by (rule sentOnly_ht)
  from Cons.prems(2) obtain d0 chans0 where
    "sendQueries e qs d0 = Inr (chans0, d1)" "sentOnly notStore d d0"
    using a b
    by (auto simp: Let_def split: sendOutcome.splits if_splits option.splits sum.splits)
  with Cons.IH [OF qs this(1)] show ?case by (blast intro: sentOnly_trans)
qed

lemma processResults_sentOnly:
  "processResults e t results nodes d = Inr mg \<Longrightarrow>
     (\<forall>v d2. mg = Hit v d2 \<longrightarrow> sentOnly notStore d d2) \<and>
     (\<forall>nodes' d2. mg = Merged nodes' d2 \<longrightarrow> sentOnly notStore d d2)"
proof (induction results arbitrary: nodes d)
  case Nil
  then show ?case by auto
next
  case (Cons m results)
  show ?case
  proof (cases "Error m")
    case (Some err)
    with Cons.prems obtain r where
      "processResults e t results (RemoveNode nodes r) d = Inr mg"
      by (auto split: option.splits)
    from Cons.IH [OF this] show ?thesis .
  next
    case None
    have hit: "mg = Hit v d" if "Data m = responseDataFindValue closest (Some v)"
        "t = iterateFindValue" for closest v
      using that Cons.prems None by simp
    show ?thesis
    proof (cases "\<exists>closest v. Data m = responseDataFindValue closest (Some v) \<and> t = iterateFindValue")
      case True
      with hit show ?thesis by auto
    next
      case False
      with None Cons.prems obtain closest d' where
        a: "addNodes e closest d = Inr d'" and
        b: "processResults e t results (AppendUniqueNetworkNodes nodes closest) d' = Inr mg"
        by (cases t; cases "Data m") (auto split: sum.splits option.splits)
      from addNodes_sentOnly [OF a] Cons.IH [OF b] show ?thesis
        by (blast intro: sentOnly_trans)
    qed
  qed
qed

lemma processResults_distinct:
  "processResults e t results nodes d = Inr (Merged nodes' d2) \<Longrightarrow>
   distinct (map NetworkNode.ID nodes) \<Longrightarrow> distinct (map NetworkNode.ID nodes')"
proof (induction results arbitrary: nodes d)
  case Nil
  then show ?case by simp
next
  case (Cons m results)
  show ?case
  proof (cases "Error m")
    case (Some err)
    with Cons.prems(1) obtain r where
      "processResults e t results (RemoveNode nodes r) d = Inr (Merged nodes' d2)"
      by (auto split: option.splits)
    from Cons.IH [OF this distinct_RemoveNode [OF Cons.prems(2)]] show ?thesis .
  next
    case None
    with Cons.prems(1) obtain closest d' where
      "processResults e t results (AppendUniqueNetworkNodes nodes closest) d' = Inr (Merged nodes' d2)"
      by (cases t; cases "Data m") (auto split: sum.splits option.splits)
    from Cons.IH [OF this distinct_AppendUnique [OF Cons.prems(2)]] show ?thesis .
  qed
qed


text \<open>What a round leaves behind: the state of the DHT and, unless a value was found, the
  shortlist.\<close>

fun roundDHT :: "roundResult \<Rightarrow> DHT option" where
  "roundDHT (Panic p) = None"
| "roundDHT (Found v d) = Some d"
| "roundDHT (Converged nodes d) = Some d"
| "roundDHT (Continue st) = Some (dhtState st)"

fun roundNodes :: "roundResult \<Rightarrow> NetworkNode list option" where
  "roundNodes (Panic p) = None"
| "roundNodes (Found v d) = None"
| "roundNodes (Converged nodes d) = Some nodes"
| "roundNodes (Continue st) = Some (sl st)"

lemma iterateRound_frame:
  assumes "iterateRound e t target st = Some r"
  shows "(\<forall>d2. roundDHT r = Some d2 \<longrightarrow> sentOnly notStore (dhtState st) d2) \<and>
         (\<forall>nodes. roundNodes r = Some nodes \<longrightarrow>
            nodes \<noteq> [] \<and>
            sorted (map (\<lambda>n. getDistance (NetworkNode.ID n) target) nodes) \<and>
            (distinct (map NetworkNode.ID (sl st)) \<longrightarrow> distinct (map NetworkNode.ID nodes)))"
proof -
  obtain qs c' where bq:
    "buildQueries t (Self (ht (dhtState st))) target (take alpha (sl st)) (contacted st) = (qs, c')"
    by (cases "buildQueries t (Self (ht (dhtState st))) target (take alpha (sl st)) (contacted st)")
  from buildQueries_props [OF bq] have "list_all (asked t target) qs" by simp
  then have qsq: "list_all isQuery qs" by (rule list_all_asked_isQuery)
  show ?thesis
  proof (cases "sendQueries e qs (dhtState st)")
    case (Inl p)
    with assms bq show ?thesis by (auto simp: iterateRound_def)
  next
    case (Inr cd)
    then obtain chans d1 where sq: "sendQueries e qs (dhtState st) = Inr (chans, d1)"
      by (cases cd) auto
    from sendQueries_sentOnly [OF qsq sq] have f1: "sentOnly notStore (dhtState st) d1" .
    from assms bq sq obtain results where aw: "awaitAll chans = Some results"
      by (cases "awaitAll chans") (auto simp: iterateRound_def)
    show ?thesis
    proof (cases "processResults e t results (sl st) d1")
      case (Inl p)
      with assms bq sq aw show ?thesis by (auto simp: iterateRound_def)
    next
      case (Inr mg)
      note pr = this
      from processResults_sentOnly [OF pr] have f2:
        "\<forall>v d2. mg = Hit v d2 \<longrightarrow> sentOnly notStore d1 d2"
        "\<forall>nodes' d2. mg = Merged nodes' d2 \<longrightarrow> sentOnly notStore d1 d2" by simp_all
      show ?thesis
      proof (cases mg)
        case (Hit v d2)
        with assms bq sq aw pr have "r = Found v d2" by (simp add: iterateRound_def)
        moreover from f1 f2(1) Hit have "sentOnly notStore (dhtState st) d2"
          by (blast intro: sentOnly_trans)
        ultimately show ?thesis by simp
      next
        case (Merged nodes' d2)
        from f1 f2(2) Merged have fr: "sentOnly notStore (dhtState st) d2"
          by (blast intro: sentOnly_trans)
        from pr Merged have pm: "processResults e t results (sl st) d1 = Inr (Merged nodes' d2)"
          by simp
        have dist: "distinct (map NetworkNode.ID (sl st)) \<longrightarrow>
                    distinct (map NetworkNode.ID (sortShortList target nodes'))"
          using processResults_distinct [OF pm] distinct_sortShortList by blast
        have srt: "sorted (map (\<lambda>n. getDistance (NetworkNode.ID n) target)
                     (sortShortList target nodes'))"
          by (rule sorted_sortShortList)
        show ?thesis
        proof (cases "sortShortList target nodes'")
          case Nil
          with assms bq sq aw pm show ?thesis by (auto simp: iterateRound_def)
        next
          case (Cons n0 rest)
          with assms bq sq aw pm have
            "r = Converged (n0 # rest) d2 \<or>
             r = Continue \<lparr>sl = n0 # rest, contacted = c', closestNode = n0, dhtState = d2\<rparr>"
            by (auto simp: iterateRound_def split: if_splits)
          moreover from dist Cons have
            "distinct (map NetworkNode.ID (sl st)) \<longrightarrow> distinct (map NetworkNode.ID (n0 # rest))"
            by simp
          moreover from srt Cons have
            "sorted (map (\<lambda>n. getDistance (NetworkNode.ID n) target) (n0 # rest))"
            by simp
          ultimately show ?thesis using fr by auto
        qed
      qed
    qed
  qed
qed

lemma iterateLoop_frame:
  assumes run: "iterateLoop e t target st = Some r"
  shows "(\<forall>d2. roundDHT r = Some d2 \<longrightarrow> sentOnly notStore (dhtState st) d2) \<and>
         (\<forall>nodes. roundNodes r = Some nodes \<longrightarrow>
            nodes \<noteq> [] \<and>
            sorted (map (\<lambda>n. getDistance (NetworkNode.ID n) target) nodes) \<and>
            (distinct (map NetworkNode.ID (sl st)) \<longrightarrow> distinct (map NetworkNode.ID nodes)))"
proof -
  define I where "I = (\<lambda>s::iterState. sentOnly notStore (dhtState st) (dhtState s) \<and>
     (distinct (map NetworkNode.ID (sl st)) \<longrightarrow> distinct (map NetworkNode.ID (sl s))))"
  have init: "I st" by (simp add: I_def)
  have step: "I s'" if i: "I s" and c: "iterateRound e t target s = Some (Continue s')" for s s'
  proof -
    from iterateRound_frame [OF c] have
      "sentOnly notStore (dhtState s) (dhtState s')"
      "distinct (map NetworkNode.ID (sl s)) \<longrightarrow> distinct (map NetworkNode.ID (sl s'))"
      by simp_all
    with i show ?thesis unfolding I_def by (blast intro: sentOnly_trans)
  qed
  have "\<exists>s. I s \<and> iterateRound e t target s = Some r \<and> (\<forall>s'. r \<noteq> Continue s')"
    using run init step by (rule iterateLoop_invariant)
  then obtain s where s: "I s" "iterateRound e t target s = Some r" by blast
  from iterateRound_frame [OF s(2)] s(1) show ?thesis
    unfolding I_def by (blast intro: sentOnly_trans)
qed

text \<open>The messages of the store loop, one for each node, under consecutive message ids.\<close>

fun storeMessages ::
  "NetworkNode \<Rightarrow> 64 word \<Rightarrow> NetworkNode list \<Rightarrow> bytes \<Rightarrow> bytes \<Rightarrow> (message \<times> 64 word \<times> bool) list" where
  "storeMessages self c [] target dat = []"
| "storeMessages self c (n # ns) target dat =
     (storeQuery self n target dat, c, False) # storeMessages self (c + 1) ns target dat"

lemma storeMessages_fields:
  "map fst (storeMessages self c ns target dat) =
     map (\<lambda>n. \<lparr>ID = 0, Sender = Some self, Receiver = Some n, IsResponse = False,
                Type = messageTypeQueryStore, Error = None,
                Data = queryDataStore target dat\<rparr>) ns \<and>
   map (\<lambda>x. Receiver (fst x)) (storeMessages self c ns target dat) = map Some ns \<and>
   list_all (\<lambda>x. Type (fst x) = messageTypeQueryStore \<and>
                  Data (fst x) = queryDataStore target dat \<and>
                  \<not> IsResponse (fst x) \<and> \<not> snd (snd x))
     (storeMessages self c ns target dat) \<and>
   map (\<lambda>x. fst (snd x)) (storeMessages self c ns target dat) =
     map (\<lambda>j. c + of_nat j) [0 ..< length ns] \<and>
   length (storeMessages self c ns target dat) = length ns"
proof (induction ns arbitrary: c)
  case Nil
  then show ?case by simp
next
  case (Cons n ns)
  have "map (\<lambda>j. c + of_nat j) [0 ..< length (n # ns)] =
          c # map (\<lambda>j. (c + 1) + of_nat j) [0 ..< length ns]"
    by (simp add: upt_conv_Cons map_Suc_upt [symmetric] add.assoc del: upt_Suc)
  with Cons [of "c + 1"] show ?case by (simp add: storeQuery_def)
qed

lemma storeLoop_sends:
  "ht (storeLoop i nodes target dat d) = ht d \<and>
   store (storeLoop i nodes target dat d) = store d \<and>
   networking (storeLoop i nodes target dat d) =
     networking d @ storeMessages (Self (ht d)) (msgCounter d) (take (k - i) nodes) target dat"
proof (induction nodes arbitrary: i d)
  case Nil
  then show ?case by simp
next
  case (Cons n nodes)
  show ?case
  proof (cases "k \<le> i")
    case True
    then show ?thesis by simp
  next
    case False
    then have "k - i = Suc (k - Suc i)" by simp
    then have t: "take (k - i) (n # nodes) = n # take (k - Suc i) nodes"
      by simp
    from False Cons.IH [of "Suc i" "send d (storeQuery (Self (ht d)) n target dat) False"]
    show ?thesis unfolding t by (simp add: send_def)
  qed
qed


lemma processResults_Hit:
  "processResults e t results nodes d = Inr (Hit v d2) \<Longrightarrow> t = iterateFindValue"
proof (induction results arbitrary: nodes d)
  case Nil
  then show ?case by simp
next
  case (Cons m results)
  show ?case
  proof (rule ccontr)
    assume nf: "t \<noteq> iterateFindValue"
    from Cons.prems nf obtain nodes0 d0 where
      "processResults e t results nodes0 d0 = Inr (Hit v d2)"
      by (cases t; cases "Data m"; cases "Error m")
         (auto split: sum.splits option.splits)
    from Cons.IH [OF this] nf show False by simp
  qed
qed

lemma iterateRound_Found:
  "iterateRound e t target st = Some (Found v d2) \<Longrightarrow> t = iterateFindValue"
  by (auto simp: iterateRound_def split: prod.splits sum.splits option.splits merged.splits
        list.splits if_splits dest: processResults_Hit)

lemma iterateLoop_Found:
  assumes "iterateLoop e t target st = Some (Found v d2)"
  shows "t = iterateFindValue"
proof -
  have "\<exists>s. True \<and> iterateRound e t target s = Some (Found v d2) \<and>
          (\<forall>s'. Found v d2 \<noteq> Continue s')"
    using assms by (rule iterateLoop_invariant) simp_all
  then show ?thesis by (auto dest: iterateRound_Found)
qed

lemma iterateLoop_not_Continue:
  assumes "iterateLoop e t target st = Some r"
  shows "r \<noteq> Continue st'"
proof -
  have "\<exists>s. True \<and> iterateRound e t target s = Some r \<and> (\<forall>s'. r \<noteq> Continue s')"
    using assms by (rule iterateLoop_invariant) simp_all
  then show ?thesis by blast
qed

text \<open>What a returning \<^verbatim>\<open>iterate(Store, ...)\<close> with a non-empty initial shortlist has done.\<close>

lemma iterate_store_run:
  assumes run: "iterate e iterateStore target dat d = Some (Inr (v, closest, d'))"
    and seed: "getClosestContacts e (ht d) alpha target [] = n0 # rest"
  shows "\<exists>nodes d1 before.
           iterateLoop e iterateStore target
             \<lparr>sl = n0 # rest, contacted = {}, closestNode = n0, dhtState = d\<rparr> =
             Some (Converged nodes d1) \<and>
           v = None \<and> closest = None \<and> d' = storeLoop 0 nodes target dat d1 \<and>
           store d1 = store d \<and> networking d1 = networking d @ before \<and>
           list_all (\<lambda>x. notStore (fst x)) before \<and> nodes \<noteq> [] \<and>
           sorted (map (\<lambda>n. getDistance (NetworkNode.ID n) target) nodes) \<and>
           (distinct (map NetworkNode.ID (n0 # rest)) \<longrightarrow> distinct (map NetworkNode.ID nodes))"
proof -
  let ?st = "\<lparr>sl = n0 # rest, contacted = {}, closestNode = n0, dhtState = d\<rparr>"
  from run seed obtain r where r: "iterateLoop e iterateStore target ?st = Some r"
    by (cases "iterateLoop e iterateStore target ?st") (auto simp: iterate_def)
  from iterateLoop_Found r have nf: "\<And>w d2. r \<noteq> Found w d2" by fastforce
  from iterateLoop_not_Continue [OF r] have nc: "\<And>s. r \<noteq> Continue s" by blast
  from run seed r nf nc obtain nodes d1 where c: "r = Converged nodes d1"
    by (cases r) (auto simp: iterate_def)
  with run seed r have res: "v = None" "closest = None" "d' = storeLoop 0 nodes target dat d1"
    by (simp_all add: iterate_def)
  from iterateLoop_frame [OF r] c have
    f: "sentOnly notStore d d1" and n: "nodes \<noteq> []"
    and s: "sorted (map (\<lambda>n. getDistance (NetworkNode.ID n) target) nodes)"
    and dd: "distinct (map NetworkNode.ID (n0 # rest)) \<longrightarrow> distinct (map NetworkNode.ID nodes)"
    by simp_all
  from f obtain before where "store d1 = store d" "networking d1 = networking d @ before"
    "list_all (\<lambda>x. notStore (fst x)) before"
    by (auto simp: sentOnly_def)
  with r c res n s dd show ?thesis by blast
qed

text \<open>
  C3: when \<^verbatim>\<open>iterate(Store, target, data)\<close> returns from a non-empty initial shortlist whose
  ids are pairwise different, it has met the convergence condition with a shortlist \<open>nodes\<close>
  that is sorted by distance to the target and has pairwise different ids. Up to then it has
  sent no QueryStore message (\<open>before\<close>); at convergence it sends \<open>sent\<close> and nothing else:
  \<open>min k (length nodes)\<close> messages, the \<open>j\<close>-th of them to the \<open>j\<close>-th node of \<open>nodes\<close>, each of
  type QueryStore, from the local node, carrying the key \<open>target\<close> and the given data, and
  handed to the network without expecting a response. The receivers are the first
  \<open>min k (length nodes)\<close> nodes of \<open>nodes\<close>, each once, and \<open>k = 20\<close>.
\<close>

theorem iterate_store_fanout:
  assumes "iterate e iterateStore target dat d = Some (Inr (v, closest, d'))"
    and "getClosestContacts e (ht d) alpha target [] \<noteq> []"
    and "distinct (map NetworkNode.ID (getClosestContacts e (ht d) alpha target []))"
  shows "\<exists>nodes d1 before sent.
           iterateLoop e iterateStore target
             \<lparr>sl = getClosestContacts e (ht d) alpha target [], contacted = {},
              closestNode = hd (getClosestContacts e (ht d) alpha target []),
              dhtState = d\<rparr> = Some (Converged nodes d1) \<and>
           sorted (map (\<lambda>n. getDistance (NetworkNode.ID n) target) nodes) \<and>
           distinct (map NetworkNode.ID nodes) \<and>
           networking d1 = networking d @ before \<and>
           list_all (\<lambda>x. Type (fst x) \<noteq> messageTypeQueryStore) before \<and>
           networking d' = networking d1 @ sent \<and>
           map fst sent =
             map (\<lambda>n. \<lparr>ID = 0, Sender = Some (Self (ht d1)), Receiver = Some n,
                        IsResponse = False, Type = messageTypeQueryStore, Error = None,
                        Data = queryDataStore target dat\<rparr>) (take k nodes) \<and>
           map (\<lambda>x. Receiver (fst x)) sent = map Some (take k nodes) \<and>
           distinct (map (\<lambda>x. map_option NetworkNode.ID (Receiver (fst x))) sent) \<and>
           list_all (\<lambda>x. Type (fst x) = messageTypeQueryStore \<and>
                          Data (fst x) = queryDataStore target dat \<and>
                          \<not> IsResponse (fst x) \<and> \<not> snd (snd x)) sent \<and>
           map (\<lambda>x. fst (snd x)) sent =
             map (\<lambda>j. msgCounter d1 + of_nat j) [0 ..< min k (length nodes)] \<and>
           length sent = min k (length nodes) \<and> k = 20"
proof -
  from assms(2) obtain n0 rest where seed: "getClosestContacts e (ht d) alpha target [] = n0 # rest"
    by (cases "getClosestContacts e (ht d) alpha target []") auto
  from iterate_store_run [OF assms(1) seed] assms(3) seed obtain nodes d1 before where
    l: "iterateLoop e iterateStore target
          \<lparr>sl = n0 # rest, contacted = {}, closestNode = n0, dhtState = d\<rparr> =
          Some (Converged nodes d1)"
    and d': "d' = storeLoop 0 nodes target dat d1"
    and b: "networking d1 = networking d @ before" "list_all (\<lambda>x. notStore (fst x)) before"
    and s: "sorted (map (\<lambda>n. getDistance (NetworkNode.ID n) target) nodes)"
    and dd: "distinct (map NetworkNode.ID nodes)"
    by auto
  define sent where "sent = storeMessages (Self (ht d1)) (msgCounter d1) (take k nodes) target dat"
  from storeLoop_sends [of 0 nodes target dat d1] d'
  have n: "networking d' = networking d1 @ sent" by (simp add: sent_def)
  note sp = storeMessages_fields [of "Self (ht d1)" "msgCounter d1" "take k nodes" target dat,
      folded sent_def]
  from sp have p1: "map fst sent =
             map (\<lambda>n. \<lparr>ID = 0, Sender = Some (Self (ht d1)), Receiver = Some n,
                        IsResponse = False, Type = messageTypeQueryStore, Error = None,
                        Data = queryDataStore target dat\<rparr>) (take k nodes)"
    and p2: "map (\<lambda>x. Receiver (fst x)) sent = map Some (take k nodes)"
    and p3: "list_all (\<lambda>x. Type (fst x) = messageTypeQueryStore \<and>
                          Data (fst x) = queryDataStore target dat \<and>
                          \<not> IsResponse (fst x) \<and> \<not> snd (snd x)) sent"
    and p4: "map (\<lambda>x. fst (snd x)) sent =
               map (\<lambda>j. msgCounter d1 + of_nat j) [0 ..< length (take k nodes)]"
    and p5: "length sent = length (take k nodes)"
    by simp_all
  have lt: "length (take k nodes) = min k (length nodes)" by simp
  have "map (\<lambda>x. map_option NetworkNode.ID (Receiver (fst x))) sent =
          map (map_option NetworkNode.ID) (map (\<lambda>x. Receiver (fst x)) sent)"
    by simp
  also have "\<dots> = map Some (map NetworkNode.ID (take k nodes))"
    unfolding p2 by simp
  finally have r: "map (\<lambda>x. map_option NetworkNode.ID (Receiver (fst x))) sent =
                     map Some (map NetworkNode.ID (take k nodes))" .
  from dd have "distinct (take k (map NetworkNode.ID nodes))" by (rule distinct_take)
  then have "distinct (map NetworkNode.ID (take k nodes))" by (simp add: take_map)
  then have p6: "distinct (map (\<lambda>x. map_option NetworkNode.ID (Receiver (fst x))) sent)"
    unfolding r by (simp add: distinct_map inj_on_def)
  from b(2) have nb: "list_all (\<lambda>x. Type (fst x) \<noteq> messageTypeQueryStore) before"
    by (simp add: notStore_def)
  have l': "iterateLoop e iterateStore target
             \<lparr>sl = getClosestContacts e (ht d) alpha target [], contacted = {},
              closestNode = hd (getClosestContacts e (ht d) alpha target []),
              dhtState = d\<rparr> = Some (Converged nodes d1)"
    using l seed by simp
  have k20: "k = 20" by (simp add: k_def)
  show ?thesis
    apply (rule exI [of _ nodes], rule exI [of _ d1], rule exI [of _ before],
        rule exI [of _ sent])
    using l' s dd b(1) nb n p1 p2 p6 p3 p4 [unfolded lt] p5 [unfolded lt] k20
    by (intro conjI)
qed

theorem iterate_store_fanout_witness:
  "iterate demoEnv iterateStore [7] [42] demoStart =
     Some (Inr (None, None,
       storeLoop 0 [mkNode 6, mkNode 5, mkNode 9] [7] [42] demoConverged)) \<and>
   getClosestContacts demoEnv (ht demoStart) alpha [7] [] = [mkNode 9] \<and>
   sorted (map (\<lambda>n. getDistance (NetworkNode.ID n) [7]) [mkNode 6, mkNode 5, mkNode 9]) \<and>
   (\<exists>sent. networking (storeLoop 0 [mkNode 6, mkNode 5, mkNode 9] [7] [42] demoConverged) =
             networking demoConverged @ sent \<and>
           map fst sent =
             [\<lparr>ID = 0, Sender = Some (mkNode 0), Receiver = Some (mkNode 6),
               IsResponse = False, Type = messageTypeQueryStore, Error = None,
               Data = queryDataStore [7] [42]\<rparr>,
              \<lparr>ID = 0, Sender = Some (mkNode 0), Receiver = Some (mkNode 5),
               IsResponse = False, Type = messageTypeQueryStore, Error = None,
               Data = queryDataStore [7] [42]\<rparr>,
              \<lparr>ID = 0, Sender = Some (mkNode 0), Receiver = Some (mkNode 9),
               IsResponse = False, Type = messageTypeQueryStore, Error = None,
               Data = queryDataStore [7] [42]\<rparr>] \<and>
           map (\<lambda>x. Receiver (fst x)) sent = [Some (mkNode 6), Some (mkNode 5), Some (mkNode 9)] \<and>
           map (\<lambda>x. fst (snd x)) sent = [3, 4, 5] \<and>
           list_all (\<lambda>x. \<not> snd (snd x)) sent \<and> length sent = 3)"
proof -
  let ?d' = "storeLoop 0 [mkNode 6, mkNode 5, mkNode 9] [7] [42] demoConverged"
  have run: "iterate demoEnv iterateStore [7] [42] demoStart = Some (Inr (None, None, ?d'))"
    unfolding iterate_def demo_seed list.case demo_loop by simp
  have ne: "getClosestContacts demoEnv (ht demoStart) alpha [7] [] \<noteq> []"
    and di: "distinct (map NetworkNode.ID (getClosestContacts demoEnv (ht demoStart) alpha [7] []))"
    by (simp_all add: demo_seed)
  from iterate_store_fanout [OF run ne di] obtain nodes d1 sent where
    l: "iterateLoop demoEnv iterateStore [7]
          \<lparr>sl = getClosestContacts demoEnv (ht demoStart) alpha [7] [], contacted = {},
           closestNode = hd (getClosestContacts demoEnv (ht demoStart) alpha [7] []),
           dhtState = demoStart\<rparr> = Some (Converged nodes d1)"
    and s: "sorted (map (\<lambda>n. getDistance (NetworkNode.ID n) [7]) nodes)"
    and n: "networking ?d' = networking d1 @ sent"
    and m: "map fst sent =
             map (\<lambda>n. \<lparr>ID = 0, Sender = Some (Self (ht d1)), Receiver = Some n,
                        IsResponse = False, Type = messageTypeQueryStore, Error = None,
                        Data = queryDataStore [7] [42]\<rparr>) (take k nodes)"
    and rc: "map (\<lambda>x. Receiver (fst x)) sent = map Some (take k nodes)"
    and f: "list_all (\<lambda>x. Type (fst x) = messageTypeQueryStore \<and>
                          Data (fst x) = queryDataStore [7] [42] \<and>
                          \<not> IsResponse (fst x) \<and> \<not> snd (snd x)) sent"
    and ids: "map (\<lambda>x. fst (snd x)) sent =
                map (\<lambda>j. msgCounter d1 + of_nat j) [0 ..< min k (length nodes)]"
    and len: "length sent = min k (length nodes)"
    by blast
  from l have e: "nodes = [mkNode 6, mkNode 5, mkNode 9]" "d1 = demoConverged"
    by (simp_all add: demo_seed demo_loop)
  have self: "Self (ht demoConverged) = mkNode 0" and mc: "msgCounter demoConverged = 3"
    by (simp_all add: demoConverged_def)
  have tk: "take k [mkNode 6, mkNode 5, mkNode 9] = [mkNode 6, mkNode 5, mkNode 9]"
    by (simp add: k_def)
  have mn: "min k (length [mkNode 6, mkNode 5, mkNode 9]) = 3" by (simp add: k_def)
  from m have m': "map fst sent =
             [\<lparr>ID = 0, Sender = Some (mkNode 0), Receiver = Some (mkNode 6),
               IsResponse = False, Type = messageTypeQueryStore, Error = None,
               Data = queryDataStore [7] [42]\<rparr>,
              \<lparr>ID = 0, Sender = Some (mkNode 0), Receiver = Some (mkNode 5),
               IsResponse = False, Type = messageTypeQueryStore, Error = None,
               Data = queryDataStore [7] [42]\<rparr>,
              \<lparr>ID = 0, Sender = Some (mkNode 0), Receiver = Some (mkNode 9),
               IsResponse = False, Type = messageTypeQueryStore, Error = None,
               Data = queryDataStore [7] [42]\<rparr>]"
    unfolding e tk self by simp
  from rc have rc': "map (\<lambda>x. Receiver (fst x)) sent =
                       [Some (mkNode 6), Some (mkNode 5), Some (mkNode 9)]"
    unfolding e tk by simp
  have "[0 ..< (3::nat)] = [0, 1, 2]" by (simp add: upt_rec)
  with ids have ids': "map (\<lambda>x. fst (snd x)) sent = [3, 4, 5]"
    unfolding e mn mc by simp
  from f have f': "list_all (\<lambda>x. \<not> snd (snd x)) sent" by (simp add: list_all_iff)
  from len have len': "length sent = 3" unfolding e mn .
  from s e have s': "sorted (map (\<lambda>n. getDistance (NetworkNode.ID n) [7])
                       [mkNode 6, mkNode 5, mkNode 9])"
    by simp
  from n e have n': "networking ?d' = networking demoConverged @ sent" by simp
  from n' m' rc' ids' f' len' have "\<exists>sent. networking ?d' = networking demoConverged @ sent \<and>
           map fst sent =
             [\<lparr>ID = 0, Sender = Some (mkNode 0), Receiver = Some (mkNode 6),
               IsResponse = False, Type = messageTypeQueryStore, Error = None,
               Data = queryDataStore [7] [42]\<rparr>,
              \<lparr>ID = 0, Sender = Some (mkNode 0), Receiver = Some (mkNode 5),
               IsResponse = False, Type = messageTypeQueryStore, Error = None,
               Data = queryDataStore [7] [42]\<rparr>,
              \<lparr>ID = 0, Sender = Some (mkNode 0), Receiver = Some (mkNode 9),
               IsResponse = False, Type = messageTypeQueryStore, Error = None,
               Data = queryDataStore [7] [42]\<rparr>] \<and>
           map (\<lambda>x. Receiver (fst x)) sent = [Some (mkNode 6), Some (mkNode 5), Some (mkNode 9)] \<and>
           map (\<lambda>x. fst (snd x)) sent = [3, 4, 5] \<and>
           list_all (\<lambda>x. \<not> snd (snd x)) sent \<and> length sent = 3"
    by (intro exI [of _ sent] conjI)
  with run demo_seed s' show ?thesis by (intro conjI)
qed

lemma storeMessages_data:
  "list_all (\<lambda>x. Type (fst x) = messageTypeQueryStore \<and> Data (fst x) = queryDataStore target dat)
     (storeMessages self c ns target dat)"
  by (induction ns arbitrary: c) (simp_all add: storeQuery_def)

lemma iterate_store_frame:
  assumes run: "iterate e iterateStore target dat d = Some (Inr (v, closest, d'))"
  shows "store d' = store d \<and>
         (\<exists>sent. networking d' = networking d @ sent \<and>
            list_all (\<lambda>x. Type (fst x) = messageTypeQueryStore \<longrightarrow>
                           Data (fst x) = queryDataStore target dat) sent)"
proof (cases "getClosestContacts e (ht d) alpha target []")
  case Nil
  with run have "d' = d" by (simp add: iterate_def)
  then show ?thesis by simp
next
  case (Cons n0 rest)
  from iterate_store_run [OF run Cons] obtain nodes d1 before where
    d': "d' = storeLoop 0 nodes target dat d1" and st: "store d1 = store d"
    and b: "networking d1 = networking d @ before" "list_all (\<lambda>x. notStore (fst x)) before"
    by blast
  let ?sent = "storeMessages (Self (ht d1)) (msgCounter d1) (take k nodes) target dat"
  from storeLoop_sends [of 0 nodes target dat d1] d' st b(1)
  have s: "store d' = store d" and n: "networking d' = networking d @ (before @ ?sent)"
    by simp_all
  from b(2) have "list_all (\<lambda>x. Type (fst x) = messageTypeQueryStore \<longrightarrow>
                           Data (fst x) = queryDataStore target dat) before"
    by (simp add: notStore_def list_all_iff)
  moreover from storeMessages_data [of target dat "Self (ht d1)" "msgCounter d1" "take k nodes"]
  have "list_all (\<lambda>x. Type (fst x) = messageTypeQueryStore \<longrightarrow>
                           Data (fst x) = queryDataStore target dat) ?sent"
    by (simp add: list_all_iff)
  ultimately have "list_all (\<lambda>x. Type (fst x) = messageTypeQueryStore \<longrightarrow>
                           Data (fst x) = queryDataStore target dat) (before @ ?sent)"
    by simp
  with s n show ?thesis by blast
qed

text \<open>What the store holds after \<^verbatim>\<open>dht.store.Store(key, data)\<close>, whatever expiration and
  publisher flag the store supplies.\<close>

lemma storeKeyData_maps:
  "data (storeKeyData e now ms key dat) = (data ms)(key \<mapsto> dat) \<and>
   refreshMap (storeKeyData e now ms key dat) = (refreshMap ms)(key \<mapsto> now + hour) \<and>
   expireMap (storeKeyData e now ms key dat) =
     (expireMap ms)(key \<mapsto> fst (storeArguments e now key dat))"
  by (simp add: storeKeyData_def MemoryStore_Store_def split: prod.splits)

text \<open>
  C2: the code does not compute the content hash. The key of \<^verbatim>\<open>DHT.Store(data)\<close> is
  \<^verbatim>\<open>sha.Sum(data)\<close> of a new hash: the data followed by the digest of the empty input. That
  byte string, of \<open>length data + 20\<close> bytes for a digest of 20 bytes, is what is encoded in
  base58 and returned, the key under which the value is stored locally, and the key of every
  QueryStore message that the call sends. For non-empty data it is not the digest of the
  data, and the call stores nothing under that digest.
\<close>

theorem DHT_Store_key_is_data_then_empty_digest:
  assumes "DHT_Store e now d dat = Some (Inr (str, d'))"
  shows "str = b58Encode e (dat @ sha1 e []) \<and>
         store d' = storeKeyData e now (store d) (dat @ sha1 e []) dat \<and>
         MemoryStore_Retrieve (store d') (dat @ sha1 e []) = Some dat \<and>
         (\<exists>sent. networking d' = networking d @ sent \<and>
            list_all (\<lambda>x. Type (fst x) = messageTypeQueryStore \<longrightarrow>
                           Data (fst x) = queryDataStore (dat @ sha1 e []) dat) sent) \<and>
         length (dat @ sha1 e []) = length dat + length (sha1 e []) \<and>
         (dat \<noteq> [] \<and> length (sha1 e dat) = length (sha1 e []) \<and>
          MemoryStore_Retrieve (store d) (sha1 e dat) = None \<longrightarrow>
            dat @ sha1 e [] \<noteq> sha1 e dat \<and>
            MemoryStore_Retrieve (store d') (sha1 e dat) = None)"
proof -
  let ?key = "dat @ sha1 e []"
  let ?d1 = "d\<lparr>store := storeKeyData e now (store d) ?key dat\<rparr>"
  from assms obtain v closest where
    run: "iterate e iterateStore ?key dat ?d1 = Some (Inr (v, closest, d'))"
    and str: "str = b58Encode e ?key"
    by (auto simp: DHT_Store_def hashSum_def Let_def split: option.splits sum.splits)
  from iterate_store_frame [OF run] obtain sent where
    s: "store d' = storeKeyData e now (store d) ?key dat"
    and n: "networking d' = networking d @ sent"
       "list_all (\<lambda>x. Type (fst x) = messageTypeQueryStore \<longrightarrow>
                           Data (fst x) = queryDataStore ?key dat) sent"
    by auto
  from s have r: "MemoryStore_Retrieve (store d') ?key = Some dat"
    by (simp add: MemoryStore_Retrieve_def storeKeyData_maps)
  have o: "?key \<noteq> sha1 e dat \<and> MemoryStore_Retrieve (store d') (sha1 e dat) = None"
    if a: "dat \<noteq> [] \<and> length (sha1 e dat) = length (sha1 e []) \<and>
           MemoryStore_Retrieve (store d) (sha1 e dat) = None"
  proof -
    from a have l: "length ?key \<noteq> length (sha1 e dat)" by simp
    have ne: "?key \<noteq> sha1 e dat"
    proof
      assume "?key = sha1 e dat"
      then have "length ?key = length (sha1 e dat)" by (rule arg_cong)
      with l show False by simp
    qed
    with a s show ?thesis
      by (simp add: MemoryStore_Retrieve_def storeKeyData_maps)
  qed
  from str s n r o show ?thesis by auto
qed


definition hello :: bytes where
  "hello = [104, 101, 108, 108, 111]"

definition soloDHT :: DHT where
  "soloDHT = demoDHT [[], [], [], [], [], [], [], []]"

lemma DHT_Store_solo:
  "DHT_Store demoEnv 0 soloDHT hello =
     Some (Inr (b58Encode demoEnv (hello @ sha1 demoEnv []),
                soloDHT\<lparr>store := storeKeyData demoEnv 0 (store soloDHT)
                                   (hello @ sha1 demoEnv []) hello\<rparr>))"
proof -
  have "getClosestContacts demoEnv
          (ht (soloDHT\<lparr>store := storeKeyData demoEnv 0 (store soloDHT)
                                   (hello @ sha1 demoEnv []) hello\<rparr>))
          alpha (hello @ sha1 demoEnv []) [] = []"
    by (simp add: demoEnv_def soloDHT_def demoDHT_def sortShortList_def)
  then show ?thesis
    by (simp add: DHT_Store_def hashSum_def iterate_def Let_def)
qed

theorem DHT_Store_key_is_data_then_empty_digest_witness:
  "DHT_Store demoEnv 0 soloDHT hello =
     Some (Inr (b58Encode demoEnv (hello @ sha1 demoEnv []),
                soloDHT\<lparr>store := storeKeyData demoEnv 0 (store soloDHT)
                                   (hello @ sha1 demoEnv []) hello\<rparr>)) \<and>
   length (sha1 demoEnv hello) = 20 \<and> length (sha1 demoEnv []) = 20 \<and>
   length (hello @ sha1 demoEnv []) = 25 \<and>
   hello @ sha1 demoEnv [] \<noteq> sha1 demoEnv hello \<and>
   MemoryStore_Retrieve
     (store (soloDHT\<lparr>store := storeKeyData demoEnv 0 (store soloDHT)
                                   (hello @ sha1 demoEnv []) hello\<rparr>))
     (hello @ sha1 demoEnv []) = Some hello \<and>
   MemoryStore_Retrieve
     (store (soloDHT\<lparr>store := storeKeyData demoEnv 0 (store soloDHT)
                                   (hello @ sha1 demoEnv []) hello\<rparr>))
     (sha1 demoEnv hello) = None"
proof -
  have a: "length (sha1 demoEnv hello) = 20" "length (sha1 demoEnv []) = 20"
    by (simp_all add: demoEnv_def)
  have b: "length hello = 5" by (simp add: hello_def)
  from DHT_Store_key_is_data_then_empty_digest [OF DHT_Store_solo]
  have c: "MemoryStore_Retrieve
     (store (soloDHT\<lparr>store := storeKeyData demoEnv 0 (store soloDHT)
                                   (hello @ sha1 demoEnv []) hello\<rparr>))
     (hello @ sha1 demoEnv []) = Some hello"
    and d: "length (hello @ sha1 demoEnv []) = length hello + length (sha1 demoEnv [])"
    by blast+
  from d a b have e: "length (hello @ sha1 demoEnv []) = 25" by simp
  have f: "hello @ sha1 demoEnv [] \<noteq> sha1 demoEnv hello"
  proof
    assume "hello @ sha1 demoEnv [] = sha1 demoEnv hello"
    then have "length (hello @ sha1 demoEnv []) = length (sha1 demoEnv hello)" by simp
    with e a show False by simp
  qed
  from f have g: "MemoryStore_Retrieve
     (store (soloDHT\<lparr>store := storeKeyData demoEnv 0 (store soloDHT)
                                   (hello @ sha1 demoEnv []) hello\<rparr>))
     (sha1 demoEnv hello) = None"
    by (simp add: MemoryStore_Retrieve_def storeKeyData_maps soloDHT_def
          demoDHT_def MemoryStore_Init_def)
  from DHT_Store_solo a e f c g show ?thesis by (intro conjI)
qed

definition storeRequest :: message where
  "storeRequest =
     \<lparr>ID = 77, Sender = Some (mkNode 200), Receiver = Some (mkNode 0), IsResponse = False,
      Type = messageTypeQueryStore, Error = None, Data = queryDataStore [7] [42]\<rparr>"

text \<open>The state after the node has handled the request at time \<open>1000\<close>. Its bucket of the
  sender is full of peers that do not answer pings, so \<^verbatim>\<open>addNode\<close> pings the head \<open>129\<close> and
  replaces it by the sender.\<close>

definition storeRequestHandled :: DHT where
  "storeRequestHandled =
     (send (demoDHT (demoTable [tl agedBucket @ [mkNode 200]]))
        (pingQuery (mkNode 0) (mkNode 129)) True)
     \<lparr>store := storeKeyData demoEnv 1000 MemoryStore_Init [7] [42]\<rparr>"

lemma storeRequest_run:
  "handleMessage demoEnv 1000 (demoDHT (demoTable [agedBucket])) storeRequest =
     Inr storeRequestHandled"
proof -
  have st: "store (send (demoDHT (demoTable [tl agedBucket @ [mkNode 200]]))
             (pingQuery (mkNode 0) (mkNode 129)) True) = MemoryStore_Init"
    by (simp add: send_def demoDHT_def)
  show ?thesis
    by (simp add: handleMessage_def storeRequest_def newNode_def addNode_demo_silent st
          storeRequestHandled_def)
qed

lemma storeRequestHandled_store:
  "store storeRequestHandled = storeKeyData demoEnv 1000 MemoryStore_Init [7] [42]"
  by (simp add: storeRequestHandled_def)




text \<open>
  C6: what the code does with a response that carries an error. It removes
  \<^verbatim>\<open>result.Receiver\<close> from the shortlist. In a response the receiver is the node that sent
  the query, that is the local node, and the sender is the remote peer (as in the responses
  that \<^verbatim>\<open>listen\<close> builds): the peer that sent the error stays in the shortlist. The routing
  table and the rest of the state are untouched by this step.
\<close>

theorem processResults_error_removes_receiver:
  assumes "Error m = Some err" and "Receiver m = Some r" and "Sender m = Some s"
    and "NetworkNode.ID r \<noteq> NetworkNode.ID s" and "s \<in> set nodes"
  shows "processResults e t [m] nodes d = Inr (Merged (RemoveNode nodes r) d) \<and>
         s \<in> set (RemoveNode nodes r)"
  using assms by (simp add: RemoveNode_def)


definition errorSend :: "message \<Rightarrow> 64 word \<Rightarrow> sendOutcome" where
  "errorSend q i =
     (case Receiver q of
        None \<Rightarrow> SendError ''no receiver''
      | Some r \<Rightarrow> Reply ((demoResponse q [])\<lparr>Error := Some ''remote error''\<rparr>))"

definition errorEnv :: env where
  "errorEnv = demoEnv\<lparr>sendMessage := errorSend\<rparr>"

definition errorReply :: message where
  "errorReply =
     \<lparr>ID = 0, Sender = Some (mkNode 9), Receiver = Some (mkNode 0), IsResponse = True,
      Type = messageTypeResponseFindNode, Error = Some ''remote error'',
      Data = responseDataFindNode []\<rparr>"

lemma error_round:
  "iterateRound errorEnv iterateFindNode [7]
     \<lparr>sl = [mkNode 9], contacted = {}, closestNode = mkNode 9, dhtState = demoStart\<rparr> =
   Some (Converged [mkNode 9]
           (send demoStart (mkQuery iterateFindNode (mkNode 0) (mkNode 9) [7]) True))"
  by (simp add: iterateRound_def alpha_def demoStart_def demo_defs mkQuery_def errorEnv_def
        errorSend_def RemoveNode_def sortShortList_def Let_def)

lemma error_run:
  "iterate errorEnv iterateFindNode [7] [] demoStart =
     Some (Inr (None, Some [mkNode 9],
                send demoStart (mkQuery iterateFindNode (mkNode 0) (mkNode 9) [7]) True))"
proof -
  have seed: "getClosestContacts errorEnv (ht demoStart) alpha [7] [] = [mkNode 9]"
    by (simp add: errorEnv_def demoEnv_def demoStart_def demoDHT_def sortShortList_def alpha_def)
  have loop: "iterateLoop errorEnv iterateFindNode [7]
     \<lparr>sl = [mkNode 9], contacted = {}, closestNode = mkNode 9, dhtState = demoStart\<rparr> =
     Some (Converged [mkNode 9]
           (send demoStart (mkQuery iterateFindNode (mkNode 0) (mkNode 9) [7]) True))"
    by (subst iterateLoop.simps, subst error_round) simp
  show ?thesis unfolding iterate_def seed list.case loop by simp
qed

theorem processResults_error_removes_receiver_witness:
  "sendMessage errorEnv (mkQuery iterateFindNode (mkNode 0) (mkNode 9) [7]) 0 = Reply errorReply \<and>
   Sender errorReply = Some (mkNode 9) \<and> Receiver errorReply = Some (mkNode 0) \<and>
   Error errorReply = Some ''remote error'' \<and>
   processResults errorEnv iterateFindNode [errorReply] [mkNode 9] demoStart =
     Inr (Merged [mkNode 9] demoStart) \<and>
   iterate errorEnv iterateFindNode [7] [] demoStart =
     Some (Inr (None, Some [mkNode 9],
                send demoStart (mkQuery iterateFindNode (mkNode 0) (mkNode 9) [7]) True))"
proof -
  have a: "sendMessage errorEnv (mkQuery iterateFindNode (mkNode 0) (mkNode 9) [7]) 0 =
             Reply errorReply"
    by (simp add: errorEnv_def errorSend_def demoResponse_def mkQuery_def errorReply_def)
  have b: "Error errorReply = Some ''remote error''" "Receiver errorReply = Some (mkNode 0)"
    "Sender errorReply = Some (mkNode 9)"
    by (simp_all add: errorReply_def)
  have c: "NetworkNode.ID (mkNode 0) \<noteq> NetworkNode.ID (mkNode 9)" by (simp add: mkNode_def)
  have d: "mkNode 9 \<in> set [mkNode 9]" by simp
  have r: "RemoveNode [mkNode 9] (mkNode 0) = [mkNode 9]"
    by (simp add: RemoveNode_def mkNode_def)
  from processResults_error_removes_receiver [OF b c d, of errorEnv iterateFindNode demoStart]
  have "processResults errorEnv iterateFindNode [errorReply] [mkNode 9] demoStart =
     Inr (Merged [mkNode 9] demoStart)"
    unfolding r by blast
  with a b error_run show ?thesis by (intro conjI)
qed

section \<open>The message codec\<close>

text \<open>Modelled from the spec: \<^verbatim>\<open>serializeMessage\<close> and \<^verbatim>\<open>deserializeMessage\<close> are not part of the
  sources (only their test is). The spec fixes the framing, a frame length of 4 bytes in
  big-endian order followed by the typed payload, the fields of the envelope, ids as 20 raw
  bytes, and that an unknown type tag and a truncated frame fail; it leaves the representation
  of the fields to the implementation. The model below writes the fields in the order of the
  envelope: integers in big-endian order, byte strings with a length of 4 bytes, a nullable
  field with a presence byte, a sequence with its count. A decoder reads a prefix of its input
  and returns the rest; \<open>None\<close> is the decode error.\<close>

type_synonym 'a decoder = "bytes \<Rightarrow> ('a \<times> bytes) option"

fun putBE :: "nat \<Rightarrow> nat \<Rightarrow> bytes" where
  "putBE 0 n = []"
| "putBE (Suc w) n = putBE w (n div 256) @ [of_nat n]"

definition bytesToNat :: "bytes \<Rightarrow> nat" where
  "bytesToNat bs = foldl (\<lambda>acc b. acc * 256 + unat b) 0 bs"

definition getN :: "nat \<Rightarrow> bytes decoder" where
  "getN n bs = (if length bs < n then None else Some (take n bs, drop n bs))"

definition putU32 :: "nat \<Rightarrow> bytes" where
  "putU32 n = putBE 4 n"

definition getU32 :: "nat decoder" where
  "getU32 bs = do { (x, rest) \<leftarrow> getN 4 bs; Some (bytesToNat x, rest) }"

lemma length_putBE [simp]: "length (putBE w n) = w"
  by (induction w arbitrary: n) simp_all

lemma bytesToNat_snoc: "bytesToNat (bs @ [b]) = bytesToNat bs * 256 + unat b"
  by (simp add: bytesToNat_def)

lemma bytesToNat_putBE: "bytesToNat (putBE w n) = n mod 256 ^ w"
proof (induction w arbitrary: n)
  case 0
  then show ?case by (simp add: bytesToNat_def)
next
  case (Suc w)
  have "unat (of_nat n :: byte) = n mod 256" by (simp add: unat_of_nat)
  with Suc [of "n div 256"] show ?case
    by (simp add: bytesToNat_snoc mod_mult2_eq mult.commute)
qed

lemma getN_append: "length x = n \<Longrightarrow> getN n (x @ rest) = Some (x, rest)"
  by (simp add: getN_def)

lemma getU32_putU32: "n < 2 ^ 32 \<Longrightarrow> getU32 (putU32 n @ rest) = Some (n, rest)"
  by (simp add: getU32_def putU32_def getN_append bytesToNat_putBE)


definition putU64 :: "64 word \<Rightarrow> bytes" where
  "putU64 w = putBE 8 (unat w)"

definition getU64 :: "64 word decoder" where
  "getU64 bs = do { (x, rest) \<leftarrow> getN 8 bs; Some (of_nat (bytesToNat x), rest) }"

lemma getU64_putU64: "getU64 (putU64 w @ rest) = Some (w, rest)"
proof -
  have "unat w < 256 ^ 8" using unsigned_less [of w, where 'a = nat] by simp
  then show ?thesis
    by (simp add: getU64_def putU64_def getN_append bytesToNat_putBE)
qed

text \<open>A Go \<^verbatim>\<open>int\<close> (the port) as 8 bytes in two's complement.\<close>

definition putInt :: "int \<Rightarrow> bytes" where
  "putInt i = putU64 (of_int i)"

definition getInt :: "int decoder" where
  "getInt bs = do { (w, rest) \<leftarrow> getU64 bs; Some (sint w, rest) }"

lemma getInt_putInt:
  "- (2 ^ 63) \<le> i \<Longrightarrow> i < 2 ^ 63 \<Longrightarrow> getInt (putInt i @ rest) = Some (i, rest)"
  by (simp add: getInt_def putInt_def getU64_putU64 signed_of_int signed_take_bit_int_eq_self)

definition putBlob :: "bytes \<Rightarrow> bytes" where
  "putBlob xs = putU32 (length xs) @ xs"

definition getBlob :: "bytes decoder" where
  "getBlob bs = do { (n, rest) \<leftarrow> getU32 bs; getN n rest }"

lemma getBlob_putBlob:
  "length xs < 2 ^ 32 \<Longrightarrow> getBlob (putBlob xs @ rest) = Some (xs, rest)"
  by (simp add: getBlob_def putBlob_def getU32_putU32 getN_append)

definition putBool :: "bool \<Rightarrow> bytes" where
  "putBool b = [if b then 1 else 0]"

fun getBool :: "bool decoder" where
  "getBool [] = None"
| "getBool (b # bs) = (if b = 0 then Some (False, bs) else if b = 1 then Some (True, bs) else None)"

lemma getBool_putBool: "getBool (putBool b @ rest) = Some (b, rest)"
  by (simp add: putBool_def)

definition putOption :: "('a \<Rightarrow> bytes) \<Rightarrow> 'a option \<Rightarrow> bytes" where
  "putOption put x = (case x of None \<Rightarrow> [0] | Some v \<Rightarrow> 1 # put v)"

fun getOption :: "'a decoder \<Rightarrow> 'a option decoder" where
  "getOption get [] = None"
| "getOption get (b # bs) =
     (if b = 0 then Some (None, bs)
      else if b = 1 then do { (v, rest) \<leftarrow> get bs; Some (Some v, rest) }
      else None)"

lemma getOption_putOption_None [simp]:
  "getOption get (putOption put None @ rest) = Some (None, rest)"
  by (simp add: putOption_def)

lemma getOption_putOption_Some:
  "get (put v @ rest) = Some (v, rest) \<Longrightarrow>
     getOption get (putOption put (Some v) @ rest) = Some (Some v, rest)"
  by (simp add: putOption_def)

text \<open>A node on the wire: the id as 20 raw bytes, the address, the port.\<close>

definition putNode :: "NetworkNode \<Rightarrow> bytes" where
  "putNode n = NetworkNode.ID n @ putBlob (IP n) @ putInt (Port n)"

definition getNode :: "NetworkNode decoder" where
  "getNode bs =
     do { (i, r1) \<leftarrow> getN 20 bs;
          (a, r2) \<leftarrow> getBlob r1;
          (p, r3) \<leftarrow> getInt r2;
          Some (\<lparr>NetworkNode.ID = i, IP = a, Port = p\<rparr>, r3) }"

definition wellFormedNode :: "NetworkNode \<Rightarrow> bool" where
  "wellFormedNode n =
     (length (NetworkNode.ID n) = 20 \<and> length (IP n) < 2 ^ 32 \<and>
      - (2 ^ 63) \<le> Port n \<and> Port n < 2 ^ 63)"

lemma getNode_putNode:
  "wellFormedNode n \<Longrightarrow> getNode (putNode n @ rest) = Some (n, rest)"
  by (simp add: wellFormedNode_def getNode_def putNode_def getN_append getBlob_putBlob
        getInt_putInt)

definition putNodes :: "NetworkNode list \<Rightarrow> bytes" where
  "putNodes ns = putU32 (length ns) @ concat (map putNode ns)"

fun getMany :: "nat \<Rightarrow> 'a decoder \<Rightarrow> 'a list decoder" where
  "getMany 0 get bs = Some ([], bs)"
| "getMany (Suc n) get bs =
     do { (x, r1) \<leftarrow> get bs; (xs, r2) \<leftarrow> getMany n get r1; Some (x # xs, r2) }"

definition getNodes :: "NetworkNode list decoder" where
  "getNodes bs = do { (n, rest) \<leftarrow> getU32 bs; getMany n getNode rest }"

lemma getMany_putNode:
  "list_all wellFormedNode ns \<Longrightarrow>
     getMany (length ns) getNode (concat (map putNode ns) @ rest) = Some (ns, rest)"
  by (induction ns) (simp_all add: getNode_putNode)

lemma getNodes_putNodes:
  "list_all wellFormedNode ns \<Longrightarrow> length ns < 2 ^ 32 \<Longrightarrow>
     getNodes (putNodes ns @ rest) = Some (ns, rest)"
  by (simp add: getNodes_def putNodes_def getU32_putU32 getMany_putNode)


fun typeTag :: "messageType \<Rightarrow> byte" where
  "typeTag messageTypeQueryPing = 0"
| "typeTag messageTypeResponsePing = 1"
| "typeTag messageTypeQueryStore = 2"
| "typeTag messageTypeQueryFindNode = 3"
| "typeTag messageTypeResponseFindNode = 4"
| "typeTag messageTypeQueryFindValue = 5"
| "typeTag messageTypeResponseFindValue = 6"

definition getType :: "messageType decoder" where
  "getType bs =
     (case bs of
        [] \<Rightarrow> None
      | b # rest \<Rightarrow>
          (if b = 0 then Some (messageTypeQueryPing, rest)
           else if b = 1 then Some (messageTypeResponsePing, rest)
           else if b = 2 then Some (messageTypeQueryStore, rest)
           else if b = 3 then Some (messageTypeQueryFindNode, rest)
           else if b = 4 then Some (messageTypeResponseFindNode, rest)
           else if b = 5 then Some (messageTypeQueryFindValue, rest)
           else if b = 6 then Some (messageTypeResponseFindValue, rest)
           else None))"

lemma getType_typeTag: "getType (typeTag t # rest) = Some (t, rest)"
  by (cases t) (simp_all add: getType_def)

definition putError :: "string \<Rightarrow> bytes" where
  "putError err = putBlob (map (\<lambda>c. of_nat (of_char c)) err)"

definition getError :: "string decoder" where
  "getError bs = do { (x, rest) \<leftarrow> getBlob bs; Some (map (\<lambda>b. char_of (unat b)) x, rest) }"

lemma getError_putError:
  "length err < 2 ^ 32 \<Longrightarrow> getError (putError err @ rest) = Some (err, rest)"
proof -
  have "char_of (unat (of_nat (of_char c) :: byte)) = c" for c :: char
    by (simp add: unat_of_nat)
  then have "map (\<lambda>b. char_of (unat b)) (map (\<lambda>c. of_nat (of_char c) :: byte) err) = err"
    by (simp add: map_idI)
  then show "length err < 2 ^ 32 \<Longrightarrow> getError (putError err @ rest) = Some (err, rest)"
    by (simp add: getError_def putError_def getBlob_putBlob)
qed

fun putPayload :: "payload \<Rightarrow> bytes" where
  "putPayload noData = []"
| "putPayload (queryDataFindNode target) = target"
| "putPayload (queryDataFindValue target) = target"
| "putPayload (queryDataStore key dat) = key @ putBlob dat"
| "putPayload (responseDataFindNode closest) = putNodes closest"
| "putPayload (responseDataFindValue closest v) = putOption putBlob v @ putNodes closest"

fun getPayload :: "messageType \<Rightarrow> payload decoder" where
  "getPayload messageTypeQueryPing bs = Some (noData, bs)"
| "getPayload messageTypeResponsePing bs = Some (noData, bs)"
| "getPayload messageTypeQueryFindNode bs =
     do { (target, rest) \<leftarrow> getN 20 bs; Some (queryDataFindNode target, rest) }"
| "getPayload messageTypeQueryFindValue bs =
     do { (target, rest) \<leftarrow> getN 20 bs; Some (queryDataFindValue target, rest) }"
| "getPayload messageTypeQueryStore bs =
     do { (key, r1) \<leftarrow> getN 20 bs; (dat, r2) \<leftarrow> getBlob r1; Some (queryDataStore key dat, r2) }"
| "getPayload messageTypeResponseFindNode bs =
     do { (closest, rest) \<leftarrow> getNodes bs; Some (responseDataFindNode closest, rest) }"
| "getPayload messageTypeResponseFindValue bs =
     do { (v, r1) \<leftarrow> getOption getBlob bs; (closest, r2) \<leftarrow> getNodes r1;
          Some (responseDataFindValue closest v, r2) }"

text \<open>The payload variant of an envelope is the one of its type tag.\<close>

fun wellFormedPayload :: "messageType \<Rightarrow> payload \<Rightarrow> bool" where
  "wellFormedPayload messageTypeQueryPing p = (p = noData)"
| "wellFormedPayload messageTypeResponsePing p = (p = noData)"
| "wellFormedPayload messageTypeQueryFindNode p =
     (case p of queryDataFindNode target \<Rightarrow> length target = 20 | _ \<Rightarrow> False)"
| "wellFormedPayload messageTypeQueryFindValue p =
     (case p of queryDataFindValue target \<Rightarrow> length target = 20 | _ \<Rightarrow> False)"
| "wellFormedPayload messageTypeQueryStore p =
     (case p of
        queryDataStore key dat \<Rightarrow> length key = 20 \<and> length dat < 2 ^ 32
      | _ \<Rightarrow> False)"
| "wellFormedPayload messageTypeResponseFindNode p =
     (case p of
        responseDataFindNode closest \<Rightarrow>
          list_all wellFormedNode closest \<and> length closest < 2 ^ 32
      | _ \<Rightarrow> False)"
| "wellFormedPayload messageTypeResponseFindValue p =
     (case p of
        responseDataFindValue closest v \<Rightarrow>
          list_all wellFormedNode closest \<and> length closest < 2 ^ 32 \<and>
          (case v of None \<Rightarrow> True | Some x \<Rightarrow> length x < 2 ^ 32)
      | _ \<Rightarrow> False)"

lemma getPayload_putPayload:
  "wellFormedPayload t p \<Longrightarrow> getPayload t (putPayload p @ rest) = Some (p, rest)"
  by (cases t; cases p)
     (auto simp: getN_append getBlob_putBlob getNodes_putNodes getOption_putOption_Some
           split: option.splits)

text \<open>Modelled from the spec: the envelope, field by field (envelope id, sender, receiver,
  is-response flag, type tag, nullable error, payload of the variant that the tag names).\<close>

definition putEnvelope :: "message \<Rightarrow> bytes" where
  "putEnvelope m =
     putU64 (message.ID m) @ putOption putNode (Sender m) @ putOption putNode (Receiver m) @
     putBool (IsResponse m) @ [typeTag (Type m)] @ putOption putError (Error m) @
     putPayload (Data m)"

definition getEnvelope :: "message decoder" where
  "getEnvelope bs =
     do { (i, r1) \<leftarrow> getU64 bs;
          (s, r2) \<leftarrow> getOption getNode r1;
          (r, r3) \<leftarrow> getOption getNode r2;
          (b, r4) \<leftarrow> getBool r3;
          (t, r5) \<leftarrow> getType r4;
          (e, r6) \<leftarrow> getOption getError r5;
          (p, r7) \<leftarrow> getPayload t r6;
          Some (\<lparr>ID = i, Sender = s, Receiver = r, IsResponse = b, Type = t, Error = e,
                 Data = p\<rparr>, r7) }"

text \<open>Modelled from the spec: the frame is the length of the envelope in 4 bytes, big-endian,
  followed by the envelope. \<^verbatim>\<open>deserializeMessage\<close> reads one frame from the connection and
  leaves what follows it; a frame that is cut short, or that holds more than one envelope,
  fails.\<close>

definition serializeMessage :: "message \<Rightarrow> bytes" where
  "serializeMessage m = putU32 (length (putEnvelope m)) @ putEnvelope m"

definition deserializeMessage :: "message decoder" where
  "deserializeMessage conn =
     do { (n, r1) \<leftarrow> getU32 conn;
          (frame, r2) \<leftarrow> getN n r1;
          (m, left) \<leftarrow> getEnvelope frame;
          if left = [] then Some (m, r2) else None }"

definition wellFormedMessage :: "message \<Rightarrow> bool" where
  "wellFormedMessage m =
     ((case Sender m of None \<Rightarrow> True | Some n \<Rightarrow> wellFormedNode n) \<and>
      (case Receiver m of None \<Rightarrow> True | Some n \<Rightarrow> wellFormedNode n) \<and>
      (case Error m of None \<Rightarrow> True | Some err \<Rightarrow> length err < 2 ^ 32) \<and>
      wellFormedPayload (Type m) (Data m) \<and>
      length (putEnvelope m) < 2 ^ 32)"

lemma getEnvelope_putEnvelope:
  assumes "wellFormedMessage m"
  shows "getEnvelope (putEnvelope m @ rest) = Some (m, rest)"
proof -
  have s: "getOption getNode (putOption putNode (Sender m) @ x) = Some (Sender m, x)" for x
    using assms
    by (cases "Sender m")
       (simp_all add: wellFormedMessage_def getOption_putOption_Some getNode_putNode)
  have r: "getOption getNode (putOption putNode (Receiver m) @ x) = Some (Receiver m, x)" for x
    using assms
    by (cases "Receiver m")
       (simp_all add: wellFormedMessage_def getOption_putOption_Some getNode_putNode)
  have e: "getOption getError (putOption putError (Error m) @ x) = Some (Error m, x)" for x
    using assms
    by (cases "Error m")
       (simp_all add: wellFormedMessage_def getOption_putOption_Some getError_putError)
  have p: "getPayload (Type m) (putPayload (Data m) @ x) = Some (Data m, x)" for x
    using assms by (simp add: wellFormedMessage_def getPayload_putPayload)
  show ?thesis
    by (simp add: getEnvelope_def putEnvelope_def getU64_putU64 s r getBool_putBool
          getType_typeTag e p)
qed

text \<open>
  C8: for every well-formed envelope of every payload variant, deserializing its
  serialization yields the envelope itself, with every field, the nullable sender, receiver,
  value and error included, and consumes exactly the frame. An envelope is well formed when
  its payload is the variant of its type tag, its ids have 20 bytes, its port is a Go \<^verbatim>\<open>int\<close>
  and its lengths fit 4 bytes.
\<close>

theorem deserializeMessage_serializeMessage:
  assumes "wellFormedMessage m"
  shows "deserializeMessage (serializeMessage m @ rest) = Some (m, rest)"
proof -
  from assms have l: "length (putEnvelope m) < 2 ^ 32" by (simp add: wellFormedMessage_def)
  from getEnvelope_putEnvelope [OF assms, of "[]"]
  have g: "getEnvelope (putEnvelope m) = Some (m, [])" by simp
  show ?thesis
    by (simp add: deserializeMessage_def serializeMessage_def getU32_putU32 [OF l] getN_append g)
qed


text \<open>The message of the test \<^verbatim>\<open>TestNetMsg\<close> (with a fixed id), and a response that carries a
  value and an error.\<close>

definition testNode :: NetworkNode where
  "testNode =
     \<lparr>NetworkNode.ID = [1, 2, 3, 4, 5, 6, 7, 8, 9, 10, 11, 12, 13, 14, 15, 16, 17, 18, 19, 20],
      IP = [0, 0, 0, 0, 0, 0, 0, 0, 0, 0, 255, 255, 127, 0, 0, 1], Port = 3000\<rparr>"

definition testMsg :: message where
  "testMsg =
     \<lparr>ID = 0, Sender = None, Receiver = Some testNode, IsResponse = False,
      Type = messageTypeQueryFindNode, Error = None,
      Data = queryDataFindNode (NetworkNode.ID testNode)\<rparr>"

definition testResponse :: message where
  "testResponse =
     \<lparr>ID = 5, Sender = Some testNode, Receiver = Some testNode, IsResponse = True,
      Type = messageTypeResponseFindValue, Error = Some ''no'',
      Data = responseDataFindValue [testNode] (Some [1, 2, 3])\<rparr>"

lemma testNode_wellFormed: "wellFormedNode testNode"
  by (simp add: wellFormedNode_def testNode_def)

lemma testMsg_wellFormed: "wellFormedMessage testMsg"
  using testNode_wellFormed
  by (simp add: wellFormedMessage_def testMsg_def testNode_def putEnvelope_def putU64_def
        putOption_def putNode_def putBlob_def putU32_def putInt_def putBool_def)

lemma testResponse_wellFormed: "wellFormedMessage testResponse"
  using testNode_wellFormed
  by (simp add: wellFormedMessage_def testResponse_def testNode_def putEnvelope_def putU64_def
        putOption_def putNode_def putBlob_def putU32_def putInt_def putBool_def putError_def
        putNodes_def)

theorem deserializeMessage_serializeMessage_witness:
  "wellFormedMessage testMsg \<and>
   deserializeMessage (serializeMessage testMsg) = Some (testMsg, []) \<and>
   wellFormedMessage testResponse \<and>
   deserializeMessage (serializeMessage testResponse) = Some (testResponse, [])"
  using deserializeMessage_serializeMessage [OF testMsg_wellFormed, of "[]"]
        deserializeMessage_serializeMessage [OF testResponse_wellFormed, of "[]"]
        testMsg_wellFormed testResponse_wellFormed
  by simp

end
